theory Spec2Isabelle
  imports Main "HOL-Library.Sublist"
begin

section \<open>The file system and the operating system as seen by the program\<close>

text \<open>
  A path is the list of its components: \<open>parent_path\<close> drops the last component and
  \<open>operator/\<close> appends one. A file system maps a path to the node stored there. Only the
  distinction of \<open>fs::is_regular_file\<close> is kept: a regular file with its bytes, or any
  other kind of entry (directory, device, socket). Symbolic links are not modelled.
\<close>

type_synonym path = "string list"

datatype node = Regular string | Other

type_synonym filesystem = "path \<rightharpoonup> node"

definition parent_path :: "path \<Rightarrow> path" where
  "parent_path p = butlast p"

definition path_append :: "path \<Rightarrow> string \<Rightarrow> path" where
  "path_append p s = p @ [s]"

definition filename :: "path \<Rightarrow> string" where
  "filename p = (if p = [] then [] else last p)"

datatype errno = EINTR | EINVAL | EOPNOTSUPP | EACCES | EIO | ENOSPC

text \<open>
  What one call of \<open>write(fd, buf, writeSize)\<close> returns: all \<open>writeSize\<close> bytes, some other
  count, or \<open>-1\<close> with \<open>errno\<close> set.
\<close>

datatype write_result = Written_all | Written nat | Write_error errno

text \<open>
  Everything the program cannot decide by itself is a field of the environment: which
  system calls fail (keyed by their arguments, or by the number of the call for the calls
  made in a loop), and what the random number generators deliver. A \<open>draw\<close> field is the
  sequence of values of one \<open>dist(gen)\<close>; the code that uses it reduces each value into
  the range of the distribution.
\<close>

record io_env =
  status_error :: "path \<Rightarrow> bool"
  size_error :: "path \<Rightarrow> bool"
  open_sync :: "path \<Rightarrow> errno option"
  open_plain :: "path \<Rightarrow> errno option"
  seek_fails :: "int \<Rightarrow> bool"
  write_res :: "nat \<Rightarrow> write_result"
  fsync_fails :: "int \<Rightarrow> bool"
  rand_byte :: "int \<Rightarrow> nat \<Rightarrow> char"
  obscure_draw :: "nat \<Rightarrow> nat"
  rename_fails :: "path \<Rightarrow> path \<Rightarrow> bool"
  remove_fails :: "path \<Rightarrow> bool"
  read_open_fails :: "path \<Rightarrow> bool"
  read_error_at :: "nat option"
  temp_draw :: "nat \<Rightarrow> nat"
  create_fails :: "path \<Rightarrow> bool"
  entry_write_fails_at :: "nat option"
  close_flush_limit :: "nat option"
  backup_draw :: "nat \<Rightarrow> nat"
  copy_fails :: "path \<Rightarrow> path \<Rightarrow> bool"

text \<open>
  \<open>fs::remove(p, ec)\<close>: \<open>true\<close> when an entry was removed; \<open>false\<close> when there was none or
  when the removal was refused (then \<open>ec\<close> is set).
\<close>

definition fs_remove :: "io_env \<Rightarrow> path \<Rightarrow> filesystem \<Rightarrow> bool \<times> filesystem" where
  "fs_remove env p fs =
     (if remove_fails env p then (False, fs)
      else case fs p of None \<Rightarrow> (False, fs) | Some n \<Rightarrow> (True, fs(p := None)))"

text \<open>
  \<open>fs::rename(src, dst, ec)\<close>: the returned flag is \<open>True\<close> when \<open>ec\<close> is set. Renaming a
  path onto itself changes nothing; otherwise the entry moves and replaces what was at
  \<open>dst\<close>.
\<close>

definition fs_rename :: "io_env \<Rightarrow> path \<Rightarrow> path \<Rightarrow> filesystem \<Rightarrow> bool \<times> filesystem" where
  "fs_rename env src dst fs =
     (if rename_fails env src dst then (True, fs)
      else case fs src of
             None \<Rightarrow> (True, fs)
           | Some n \<Rightarrow> if src = dst then (False, fs) else (False, (fs(src := None))(dst \<mapsto> n)))"

section \<open>SecureDelete.cpp\<close>

definition SHRED_BUFFER_SIZE :: nat where
  "SHRED_BUFFER_SIZE = 4096"

datatype syscall =
    SysSeek nat
  | SysWrite nat
  | SysFsync
  | SysRename path path bool
  | SysRemove path bool

datatype sd_msg =
    ErrStatus
  | WarnNotRegular
  | InfoAlreadyDeleted
  | ErrFileSize
  | InfoEmptyFile
  | InfoNoSync
  | ErrOpen errno
  | ErrSeek
  | ErrWrite errno
  | ErrIncompleteWrite
  | WarnFsync
  | ErrDelete

text \<open>
  The state of the overwrite loops: the bytes of the open file, the offset of the
  descriptor, the number of \<open>write\<close> calls made, the system calls made (a \<open>SysWrite n\<close>
  put \<open>n\<close> bytes into the file) and the lines sent to \<open>log\<close>.
\<close>

record wr_state =
  st_content :: string
  st_offset :: nat
  st_calls :: nat
  st_trace :: "syscall list"
  st_log :: "sd_msg list"

definition overwrite :: "nat \<Rightarrow> string \<Rightarrow> string \<Rightarrow> string" where
  "overwrite off bytes content = take off content @ bytes @ drop (off + length bytes) content"

definition do_write :: "string \<Rightarrow> nat \<Rightarrow> wr_state \<Rightarrow> wr_state" where
  "do_write buf n st =
     st\<lparr>st_content := overwrite (st_offset st) (take n buf) (st_content st),
        st_offset := st_offset st + n,
        st_calls := st_calls st + 1,
        st_trace := st_trace st @ [SysWrite n]\<rparr>"

definition add_log :: "sd_msg \<Rightarrow> wr_state \<Rightarrow> wr_state" where
  "add_log m st = st\<lparr>st_log := st_log st @ [m]\<rparr>"

text \<open>\<open>SecureBuffer::fillRandom\<close> (lines 62-66): \<open>SHRED_BUFFER_SIZE\<close> random bytes.\<close>

definition fillRandom :: "io_env \<Rightarrow> int \<Rightarrow> string" where
  "fillRandom env pass = map (rand_byte env pass) [0..<SHRED_BUFFER_SIZE]"

text \<open>
  The \<open>while (remaining > 0)\<close> loop of lines 130-144. \<open>EINTR\<close> repeats the call, so the
  loop need not end: the result \<open>None\<close> is the run that never returns. The flag of a
  returned pair is \<open>False\<close> where the source leaves through
  \<open>return fs::remove(filepath, ec)\<close>.
\<close>

partial_function (option) writeLoop ::
  "io_env \<Rightarrow> string \<Rightarrow> nat \<Rightarrow> wr_state \<Rightarrow> (bool \<times> wr_state) option" where
  [code]: "writeLoop env buf remaining st =
     (if remaining > 0 then
        (let writeSize = min SHRED_BUFFER_SIZE remaining in
         case write_res env (st_calls st) of
           Write_error e \<Rightarrow>
             if e = EINTR then writeLoop env buf remaining (do_write buf 0 st)
             else Some (False, add_log (ErrWrite e) (do_write buf 0 st))
         | Written k \<Rightarrow>
             if k \<noteq> writeSize then Some (False, add_log ErrIncompleteWrite (do_write buf k st))
             else writeLoop env buf (remaining - k) (do_write buf k st)
         | Written_all \<Rightarrow> writeLoop env buf (remaining - writeSize) (do_write buf writeSize st))
      else Some (True, st))"

text \<open>
  The \<open>for (int pass = 1; pass <= passes; ++pass)\<close> loop of lines 119-150. The counter
  is a 32-bit \<open>int\<close>; the model follows it for \<open>passes < 2^31 - 1\<close>, where \<open>++pass\<close> cannot
  overflow.
\<close>

function passLoop ::
  "io_env \<Rightarrow> int \<Rightarrow> int \<Rightarrow> nat \<Rightarrow> wr_state \<Rightarrow> (bool \<times> wr_state) option" where
  "passLoop env pass passes fileSize st =
     (if pass \<le> passes then
        (if seek_fails env pass then Some (False, add_log ErrSeek st)
         else
           (case writeLoop env (fillRandom env pass) fileSize
                   (st\<lparr>st_offset := 0, st_trace := st_trace st @ [SysSeek 0]\<rparr>) of
              None \<Rightarrow> None
            | Some (ok, st2) \<Rightarrow>
                if \<not> ok then Some (False, st2)
                else passLoop env (pass + 1) passes fileSize
                       ((if fsync_fails env pass then add_log WarnFsync else id)
                          (st2\<lparr>st_trace := st_trace st2 @ [SysFsync]\<rparr>))))
      else Some (True, st))"
  by pat_completeness auto
termination
  by (relation "measure (\<lambda>(env, pass, passes, fileSize, st). nat (passes + 1 - pass))") auto

declare passLoop.simps [simp del]

record sd_result =
  sd_ret :: bool
  sd_fs :: filesystem
  sd_trace :: "syscall list"
  sd_log :: "sd_msg list"

text \<open>\<open>return fs::remove(filepath, ec);\<close> with the trace and the log given.\<close>

definition return_remove ::
  "io_env \<Rightarrow> path \<Rightarrow> filesystem \<Rightarrow> syscall list \<Rightarrow> sd_msg list \<Rightarrow> sd_result" where
  "return_remove env p fs tr lg =
     (let (r, fs') = fs_remove env p fs
      in \<lparr>sd_ret = r, sd_fs = fs', sd_trace = tr @ [SysRemove p r], sd_log = lg\<rparr>)"

text \<open>
  Lines 154-158: fifteen characters \<open>charset[dist(gen) % (sizeof(charset) - 1)]\<close>.
\<close>

definition charset62 :: string where
  "charset62 = ''ABCDEFGHIJKLMNOPQRSTUVWXYZabcdefghijklmnopqrstuvwxyz0123456789''"

definition obscureName :: "io_env \<Rightarrow> string" where
  "obscureName env = map (\<lambda>i. charset62 ! ((obscure_draw env i mod 256) mod 62)) [0..<15]"

text \<open>Steps 6 and 8 of \<open>secureDelete\<close> (lines 152-172): rename, then delete.\<close>

definition rename_and_delete ::
  "io_env \<Rightarrow> path \<Rightarrow> filesystem \<Rightarrow> syscall list \<Rightarrow> sd_msg list \<Rightarrow> sd_result" where
  "rename_and_delete env filepath fs tr lg =
     (let obscurePath0 = path_append (parent_path filepath) (obscureName env);
          (ec, fs1) = fs_rename env filepath obscurePath0 fs;
          obscurePath = (if ec then filepath else obscurePath0);
          (r, fs2) = fs_remove env obscurePath fs1;
          tr' = tr @ [SysRename filepath obscurePath0 (\<not> ec), SysRemove obscurePath r]
      in if \<not> r then \<lparr>sd_ret = False, sd_fs = fs2, sd_trace = tr', sd_log = lg @ [ErrDelete]\<rparr>
         else \<lparr>sd_ret = True, sd_fs = fs2, sd_trace = tr', sd_log = lg\<rparr>)"

text \<open>
  Step 3 (lines 100-104): \<open>open\<close> with \<open>O_SYNC\<close>, once more without it when that is not
  supported. \<open>None\<close> is a valid descriptor.
\<close>

definition open_wronly :: "io_env \<Rightarrow> path \<Rightarrow> errno option \<times> sd_msg list" where
  "open_wronly env filepath =
     (if open_sync env filepath = Some EINVAL \<or> open_sync env filepath = Some EOPNOTSUPP
      then (open_plain env filepath, [InfoNoSync])
      else (open_sync env filepath, []))"

text \<open>
  \<open>secureDelete(filepath, passes, log)\<close>, lines 19-173. The result is \<open>None\<close> exactly when
  the write loop never returns. \<open>fs::is_regular_file(filepath, ec)\<close> sets \<open>ec\<close> when the
  status cannot be read, and also when the path has no entry; so the branch of lines
  83-84 for a file already deleted is never taken.
\<close>

definition secureDelete :: "io_env \<Rightarrow> path \<Rightarrow> int \<Rightarrow> filesystem \<Rightarrow> sd_result option" where
  "secureDelete env filepath passes fs =
     (if status_error env filepath \<or> fs filepath = None then
        Some \<lparr>sd_ret = False, sd_fs = fs, sd_trace = [], sd_log = [ErrStatus]\<rparr>
      else case fs filepath of
        None \<Rightarrow> Some \<lparr>sd_ret = True, sd_fs = fs, sd_trace = [], sd_log = [InfoAlreadyDeleted]\<rparr>
      | Some Other \<Rightarrow> Some (return_remove env filepath fs [] [WarnNotRegular])
      | Some (Regular content) \<Rightarrow>
          if size_error env filepath then Some (return_remove env filepath fs [] [ErrFileSize])
          else if length content = 0 then Some (return_remove env filepath fs [] [InfoEmptyFile])
          else
            (let (fd, lg) = open_wronly env filepath
             in case fd of
                  Some e \<Rightarrow> Some (return_remove env filepath fs [] (lg @ [ErrOpen e]))
                | None \<Rightarrow>
                    (case passLoop env 1 passes (length content)
                            \<lparr>st_content = content, st_offset = 0, st_calls = 0,
                             st_trace = [], st_log = lg\<rparr> of
                       None \<Rightarrow> None
                     | Some (ok, st) \<Rightarrow>
                         (let fs1 = fs(filepath \<mapsto> Regular (st_content st))
                          in if \<not> ok then Some (return_remove env filepath fs1 (st_trace st) (st_log st))
                             else Some (rename_and_delete env filepath fs1 (st_trace st) (st_log st))))))"

section \<open>HistoryCleaner.cpp: configuration and time window\<close>

datatype Mode =
    NONE | TODAY | LAST_7_DAYS | LAST_30_DAYS | SPECIFIC_DAY | BETWEEN
  | BEFORE | AFTER | OLDER_THAN | NEWER_THAN | ALL_TIME

text \<open>
  The members of \<open>HistoryCleaner\<close> that the core reads and writes. \<open>std::time_t\<close> is a
  signed 64-bit count of seconds, kept as an \<open>int\<close>. A compiled \<open>std::regex\<close> of the
  content filter is the predicate \<open>std::regex_search(command, regex)\<close> it decides.
  \<open>interrupted\<close> is written only by the signal handler, which ends the process, so the
  sequential code reads one value of it throughout.
\<close>

record cleaner =
  tempFilePath :: path
  backupFilePath :: path
  effectiveHistoryFilePath :: path
  mode :: Mode
  startDateStr :: string
  endDateStr :: string
  specificDateStr :: string
  olderThanDays :: int
  doBackup :: bool
  dryRun :: bool
  preciseTime :: bool
  shredPasses :: int
  startTimestamp :: int
  endTimestamp :: int
  filterKeywords :: "string list"
  filterRegexes :: "(string \<Rightarrow> bool) list"
  interrupted :: bool

text \<open>
  The C library behind \<open>calculateTimestamps\<close>: the current time, the result of
  \<open>dateToEpoch(dateStr, precise)\<close> (\<open>None\<close> where it throws), and \<open>mktime\<close> of the local
  calendar day of an instant at 00:00:00 and at 23:59:59.
\<close>

record clock =
  now :: int
  date_to_epoch :: "string \<Rightarrow> bool \<Rightarrow> int option"
  start_of_day :: "int \<Rightarrow> int"
  end_of_day :: "int \<Rightarrow> int"

definition TIME_MAX :: int where
  "TIME_MAX = 2 ^ 63 - 1"

text \<open>
  \<open>olderThanDays_ * 24 * 60 * 60\<close> is computed in 32-bit \<open>int\<close>; the value is taken
  modulo \<open>2^32\<close> into the signed range.
\<close>

definition wrap32 :: "int \<Rightarrow> int" where
  "wrap32 x = (x + 2 ^ 31) mod 2 ^ 32 - 2 ^ 31"

datatype config_error = ModeNotSet | BadDate

text \<open>\<open>HistoryCleaner::calculateTimestamps\<close>, lines 324-413. \<open>Inl\<close> is the exception.\<close>

definition calculateTimestamps :: "clock \<Rightarrow> cleaner \<Rightarrow> config_error + cleaner" where
  "calculateTimestamps clk c =
     (case mode c of
        TODAY \<Rightarrow> Inr (c\<lparr>startTimestamp := start_of_day clk (now clk), endTimestamp := TIME_MAX\<rparr>)
      | LAST_7_DAYS \<Rightarrow> Inr (c\<lparr>startTimestamp := now clk - 7 * 24 * 60 * 60, endTimestamp := TIME_MAX\<rparr>)
      | LAST_30_DAYS \<Rightarrow> Inr (c\<lparr>startTimestamp := now clk - 30 * 24 * 60 * 60, endTimestamp := TIME_MAX\<rparr>)
      | SPECIFIC_DAY \<Rightarrow>
          (case date_to_epoch clk (specificDateStr c) (preciseTime c) of
             None \<Rightarrow> Inl BadDate
           | Some s \<Rightarrow>
               if preciseTime c then Inr (c\<lparr>startTimestamp := s, endTimestamp := s\<rparr>)
               else Inr (c\<lparr>startTimestamp := s, endTimestamp := end_of_day clk s\<rparr>))
      | BETWEEN \<Rightarrow>
          (case date_to_epoch clk (startDateStr c) (preciseTime c) of
             None \<Rightarrow> Inl BadDate
           | Some s \<Rightarrow>
               (case date_to_epoch clk (endDateStr c) (preciseTime c) of
                  None \<Rightarrow> Inl BadDate
                | Some e \<Rightarrow>
                    if \<not> preciseTime c
                    then Inr (c\<lparr>startTimestamp := s, endTimestamp := end_of_day clk e\<rparr>)
                    else Inr (c\<lparr>startTimestamp := s, endTimestamp := e\<rparr>)))
      | BEFORE \<Rightarrow>
          (case date_to_epoch clk (specificDateStr c) (preciseTime c) of
             None \<Rightarrow> Inl BadDate
           | Some e \<Rightarrow>
               if \<not> preciseTime c
               then Inr (c\<lparr>startTimestamp := 0, endTimestamp := e - 1\<rparr>)
               else Inr (c\<lparr>startTimestamp := 0, endTimestamp := e\<rparr>))
      | AFTER \<Rightarrow>
          (case date_to_epoch clk (specificDateStr c) (preciseTime c) of
             None \<Rightarrow> Inl BadDate
           | Some s \<Rightarrow> Inr (c\<lparr>startTimestamp := s, endTimestamp := TIME_MAX\<rparr>))
      | OLDER_THAN \<Rightarrow>
          Inr (c\<lparr>startTimestamp := 0,
                 endTimestamp := now clk - wrap32 (olderThanDays c * 24 * 60 * 60)\<rparr>)
      | NEWER_THAN \<Rightarrow>
          Inr (c\<lparr>startTimestamp := now clk - wrap32 (olderThanDays c * 24 * 60 * 60),
                 endTimestamp := TIME_MAX\<rparr>)
      | ALL_TIME \<Rightarrow> Inr (c\<lparr>startTimestamp := 0, endTimestamp := TIME_MAX\<rparr>)
      | NONE \<Rightarrow> Inl ModeNotSet)"

section \<open>HistoryCleaner.cpp: header lines and the deletion decision\<close>

definition NL :: char where "NL = CHR 0x0A"
definition CR :: char where "CR = CHR 0x0D"

text \<open>The classes of \<open>std::regex\<close> in the default locale: \<open>\s\<close>, \<open>\d\<close>, and \<open>.\<close>.\<close>

definition is_space :: "char \<Rightarrow> bool" where
  "is_space ch = (ch \<in> set [CHR '' '', CHR 0x09, CHR 0x0A, CHR 0x0B, CHR 0x0C, CHR 0x0D])"

definition is_digit :: "char \<Rightarrow> bool" where
  "is_digit ch = (ch \<in> set ''0123456789'')"

definition is_any :: "char \<Rightarrow> bool" where
  "is_any ch = (ch \<noteq> NL \<and> ch \<noteq> CR)"

text \<open>
  \<open>std::regex_match(line, match, historyEntryRegex_)\<close> for the expression of line 42,
  \<open>^\s*:\s*(\d+):\d+\s*;.*$\<close>; the result is \<open>match[1]\<close>. Every starred class is followed
  by a character outside it, so the expression matches a line in at most one way, the
  greedy one that is followed here.
\<close>

definition matchHeader :: "string \<Rightarrow> string option" where
  "matchHeader line =
     (case dropWhile is_space line of
        [] \<Rightarrow> None
      | c1 # s1 \<Rightarrow>
          (if c1 \<noteq> CHR '':'' then None
           else
             (let s2 = dropWhile is_space s1; ts = takeWhile is_digit s2
              in if ts = [] then None
                 else
                   (case dropWhile is_digit s2 of
                      [] \<Rightarrow> None
                    | c2 # s3 \<Rightarrow>
                        (if c2 \<noteq> CHR '':'' \<or> takeWhile is_digit s3 = [] then None
                         else
                           (case dropWhile is_space (dropWhile is_digit s3) of
                              [] \<Rightarrow> None
                            | c3 # rest \<Rightarrow>
                                (if c3 = CHR '';'' \<and> list_all is_any rest then Some ts
                                 else None)))))))"

text \<open>
  \<open>std::stoll\<close> on a string that starts with a digit (as \<open>match[1]\<close> does): the value of
  the leading digits, \<open>out_of_range\<close> above \<open>LLONG_MAX\<close>, \<open>invalid_argument\<close> when there
  is no digit to convert.
\<close>

datatype stoll_result = Value int | Out_of_range | Invalid_argument

definition LLONG_MAX :: int where
  "LLONG_MAX = 2 ^ 63 - 1"

definition digit_val :: "char \<Rightarrow> int" where
  "digit_val ch = int (of_char ch) - 48"

definition stoll :: "string \<Rightarrow> stoll_result" where
  "stoll s =
     (let ds = takeWhile is_digit s; v = foldl (\<lambda>a ch. 10 * a + digit_val ch) 0 ds
      in if ds = [] then Invalid_argument
         else if v > LLONG_MAX then Out_of_range
         else Value v)"

text \<open>\<open>std::string::find\<close> for a character and for a string: the first position.\<close>

definition find_char :: "string \<Rightarrow> char \<Rightarrow> nat option" where
  "find_char s ch = (if ch \<in> set s then Some (length (takeWhile (\<lambda>x. x \<noteq> ch) s)) else None)"

fun str_find :: "string \<Rightarrow> string \<Rightarrow> nat option" where
  "str_find [] k = (if k = [] then Some 0 else None)"
| "str_find (ch # cs) k =
     (if prefix k (ch # cs) then Some 0 else map_option Suc (str_find cs k))"

datatype hc_msg =
    WarnMalformed nat
  | WarnInvalidFormat nat
  | WarnTimestampRange nat
  | WarnTimestampFormat nat
  | WarnPreamble nat
  | WouldDelete nat string
  | IntBeforeProcessing
  | IntDuringProcessing
  | ErrCannotOpenHistory
  | ErrReadNear nat
  | Summary nat nat nat
  | ErrCreateNew
  | ErrWriteNew
  | ErrRenameNew
  | WarnRemoveTemp path
  | IntBeforeBackup
  | ErrBackup path
  | BackupCreated path
  | IntBeforeCleanup
  | DryRunNoChanges
  | BackupFailedAbort
  | IntAfterBackup
  | SecurelyDeleting path
  | ErrSecureDelete
  | MightStillExist
  | SecurelyDeleted
  | SdLog sd_msg

text \<open>
  The local variables of \<open>processHistory\<close> during the first pass, with what was sent to
  \<open>std::cerr\<close> and to the stream \<open>output\<close>.
\<close>

record scan_state =
  lineNum :: nat
  keptCount :: nat
  deletedCount :: nat
  currentCommandBlock :: string
  keptEntries :: "string list"
  scan_cerr :: "hc_msg list"
  scan_output :: "hc_msg list"

definition keep_warn :: "hc_msg \<Rightarrow> scan_state \<Rightarrow> scan_state" where
  "keep_warn m st = st\<lparr>keptCount := keptCount st + 1, scan_cerr := scan_cerr st @ [m]\<rparr>"

text \<open>Lines 996-1001 and 1006-1011: the two loops that stop at the first match.\<close>

fun keywordLoop :: "string list \<Rightarrow> string \<Rightarrow> bool" where
  "keywordLoop [] command = False"
| "keywordLoop (keyword # ks) command =
     (if str_find command keyword \<noteq> None then True else keywordLoop ks command)"

fun regexLoop :: "(string \<Rightarrow> bool) list \<Rightarrow> string \<Rightarrow> bool" where
  "regexLoop [] command = False"
| "regexLoop (regex # rs) command = (if regex command then True else regexLoop rs command)"

text \<open>Lines 987-988: the text after the first \<open>;\<close>, without leading blanks and tabs.\<close>

definition commandOf :: "string \<Rightarrow> nat \<Rightarrow> string" where
  "commandOf firstLine cmdStart =
     dropWhile (\<lambda>ch. ch = CHR '' '' \<or> ch = CHR 0x09) (drop (cmdStart + 1) firstLine)"

text \<open>Lines 982-1014: the value of \<open>shouldDelete\<close> for a record inside the window.\<close>

definition shouldDeleteOf :: "cleaner \<Rightarrow> string \<Rightarrow> bool" where
  "shouldDeleteOf c firstLine =
     (case find_char firstLine (CHR '';'') of
        None \<Rightarrow> False
      | Some cmdStart \<Rightarrow>
          (let command = commandOf firstLine cmdStart
           in if filterKeywords c = [] \<and> filterRegexes c = [] then True
              else
                (let byKeyword =
                       (if filterKeywords c \<noteq> [] then keywordLoop (filterKeywords c) command
                        else False)
                 in if filterRegexes c \<noteq> [] \<and> \<not> byKeyword
                    then regexLoop (filterRegexes c) command
                    else byKeyword)))"

text \<open>
  \<open>HistoryCleaner::processCommandBlock\<close>, lines 958-1038. The counters and the streams
  are the fields of the state; the flag returned is \<open>true\<close> when the block is deleted.
\<close>

definition processCommandBlock ::
  "cleaner \<Rightarrow> string \<Rightarrow> nat \<Rightarrow> scan_state \<Rightarrow> bool \<times> scan_state" where
  "processCommandBlock c block ln st =
     (case find_char block NL of
        None \<Rightarrow> (False, keep_warn (WarnMalformed ln) st)
      | Some firstLineEnd \<Rightarrow>
          (let firstLine = take firstLineEnd block
           in case matchHeader firstLine of
                None \<Rightarrow> (False, keep_warn (WarnInvalidFormat ln) st)
              | Some m1 \<Rightarrow>
                  (case stoll m1 of
                     Out_of_range \<Rightarrow> (False, keep_warn (WarnTimestampRange ln) st)
                   | Invalid_argument \<Rightarrow> (False, keep_warn (WarnTimestampFormat ln) st)
                   | Value timestamp \<Rightarrow>
                       if timestamp \<ge> startTimestamp c \<and> timestamp \<le> endTimestamp c
                          \<and> shouldDeleteOf c firstLine
                       then (True,
                             st\<lparr>deletedCount := deletedCount st + 1,
                                scan_output :=
                                  (if dryRun c then scan_output st @ [WouldDelete ln block]
                                   else scan_output st)\<rparr>)
                       else (False, st\<lparr>keptCount := keptCount st + 1\<rparr>))))"

section \<open>HistoryCleaner.cpp: the first pass of processHistory\<close>

text \<open>
  The lines that successive \<open>std::getline\<close> calls deliver until the end of the file: the
  text between newlines, and a last line without a newline when it is not empty.
\<close>

fun splitLines :: "string \<Rightarrow> string \<Rightarrow> string list" where
  "splitLines cur [] = (if cur = [] then [] else [cur])"
| "splitLines cur (ch # cs) =
     (if ch = NL then cur # splitLines [] cs else splitLines (cur @ [ch]) cs)"

definition getlines :: "string \<Rightarrow> string list" where
  "getlines content = splitLines [] content"

text \<open>Lines 1075-1077.\<close>

definition stripCR :: "string \<Rightarrow> string" where
  "stripCR line = (if line \<noteq> [] \<and> last line = CR then butlast line else line)"

text \<open>
  Lines 1085-1090, and again lines 1111-1116: the block collected so far is judged and,
  outside a dry run, appended to \<open>keptEntries\<close> when it is not deleted.
\<close>

definition flushBlock :: "cleaner \<Rightarrow> nat \<Rightarrow> scan_state \<Rightarrow> scan_state" where
  "flushBlock c ln st =
     (if currentCommandBlock st \<noteq> [] then
        (let (shouldDelete, st1) = processCommandBlock c (currentCommandBlock st) ln st
         in if \<not> shouldDelete \<and> \<not> dryRun c
            then st1\<lparr>keptEntries := keptEntries st1 @ [currentCommandBlock st]\<rparr>
            else st1)
      else st)"

text \<open>The body of the reading loop for one line that was read, lines 1072-1107.\<close>

definition processLine :: "cleaner \<Rightarrow> string \<Rightarrow> scan_state \<Rightarrow> scan_state" where
  "processLine c rawLine st0 =
     (let st = st0\<lparr>lineNum := lineNum st0 + 1\<rparr>;
          line = stripCR rawLine
      in if matchHeader line \<noteq> None then
           (flushBlock c (lineNum st - 1) st)\<lparr>currentCommandBlock := line @ [NL]\<rparr>
         else if currentCommandBlock st \<noteq> [] then
           st\<lparr>currentCommandBlock := currentCommandBlock st @ line @ [NL]\<rparr>
         else
           st\<lparr>scan_cerr := scan_cerr st @ [WarnPreamble (lineNum st)],
              keptEntries := (if \<not> dryRun c then keptEntries st @ [line @ [NL]]
                              else keptEntries st),
              keptCount := keptCount st + 1\<rparr>)"

text \<open>
  The loop of lines 1058-1108 over the lines still to be read. The flag is \<open>False\<close> where
  the source returns \<open>false\<close> from inside the loop.
\<close>

definition loop_abort :: "cleaner \<Rightarrow> io_env \<Rightarrow> scan_state \<Rightarrow> hc_msg option" where
  "loop_abort c env st =
     (if interrupted c then Some IntDuringProcessing
      else if read_error_at env = Some (lineNum st) then Some (ErrReadNear (lineNum st))
      else None)"

fun scanLoop :: "cleaner \<Rightarrow> io_env \<Rightarrow> string list \<Rightarrow> scan_state \<Rightarrow> bool \<times> scan_state" where
  "scanLoop c env [] st =
     (case loop_abort c env st of
        Some m \<Rightarrow> (False, st\<lparr>scan_cerr := scan_cerr st @ [m]\<rparr>)
      | None \<Rightarrow> (True, st))"
| "scanLoop c env (l # ls) st =
     (case loop_abort c env st of
        Some m \<Rightarrow> (False, st\<lparr>scan_cerr := scan_cerr st @ [m]\<rparr>)
      | None \<Rightarrow> scanLoop c env ls (processLine c l st))"

definition scan_init :: scan_state where
  "scan_init = \<lparr>lineNum = 0, keptCount = 0, deletedCount = 0, currentCommandBlock = [],
                keptEntries = [], scan_cerr = [], scan_output = []\<rparr>"

text \<open>Lines 1052-1116: the loop, then the last block.\<close>

definition scanHistory :: "cleaner \<Rightarrow> io_env \<Rightarrow> string \<Rightarrow> bool \<times> scan_state" where
  "scanHistory c env content =
     (let (ok, st) = scanLoop c env (getlines content) scan_init
      in if ok then (True, flushBlock c (lineNum st) st) else (False, st))"

section \<open>HistoryCleaner.cpp: cleanup, backup and the commit\<close>

text \<open>The world outside the object: the file system, the three streams, the system calls.\<close>

record world =
  w_fs :: filesystem
  w_cerr :: "hc_msg list"
  w_cout :: "hc_msg list"
  w_output :: "hc_msg list"
  w_trace :: "syscall list"

definition to_cerr :: "hc_msg list \<Rightarrow> world \<Rightarrow> world" where
  "to_cerr ms w = w\<lparr>w_cerr := w_cerr w @ ms\<rparr>"

definition to_cout :: "hc_msg list \<Rightarrow> world \<Rightarrow> world" where
  "to_cout ms w = w\<lparr>w_cout := w_cout w @ ms\<rparr>"

definition to_output :: "hc_msg list \<Rightarrow> world \<Rightarrow> world" where
  "to_output ms w = w\<lparr>w_output := w_output w @ ms\<rparr>"

text \<open>\<open>HistoryCleaner::cleanup\<close>, lines 63-86.\<close>

definition cleanup :: "io_env \<Rightarrow> cleaner \<Rightarrow> world \<Rightarrow> cleaner \<times> world" where
  "cleanup env c w =
     (if tempFilePath c \<noteq> [] \<and> w_fs w (tempFilePath c) \<noteq> None then
        (let (r, fs') = fs_remove env (tempFilePath c) (w_fs w);
             w1 = w\<lparr>w_fs := fs'\<rparr>
         in (c\<lparr>tempFilePath := []\<rparr>,
             if remove_fails env (tempFilePath c)
             then to_cerr [WarnRemoveTemp (tempFilePath c)] w1 else w1))
      else (c, w))"

text \<open>Lines 1129-1136 and 1182-1189: fifteen characters \<open>charset[dist(gen)]\<close>.\<close>

definition charset36 :: string where
  "charset36 = ''0123456789ABCDEFGHIJKLMNOPQRSTUVWXYZ''"

definition randomName36 :: "(nat \<Rightarrow> nat) \<Rightarrow> string" where
  "randomName36 draw = map (\<lambda>i. charset36 ! (draw i mod 36)) [0..<15]"

text \<open>
  \<open>fs::copy_file(from, to, overwrite_existing, ec)\<close>: the flag is \<open>True\<close> when \<open>ec\<close> is
  set, as it is when \<open>from\<close> is not a regular file or when both paths name one file.
\<close>

definition fs_copy_file :: "io_env \<Rightarrow> path \<Rightarrow> path \<Rightarrow> filesystem \<Rightarrow> bool \<times> filesystem" where
  "fs_copy_file env src dst fs =
     (if copy_fails env src dst \<or> src = dst then (True, fs)
      else case fs src of
             Some (Regular content) \<Rightarrow> (False, fs(dst \<mapsto> Regular content))
           | _ \<Rightarrow> (True, fs))"

text \<open>\<open>HistoryCleaner::backupHistoryFile\<close>, lines 1177-1203.\<close>

definition backupHistoryFile :: "io_env \<Rightarrow> cleaner \<Rightarrow> world \<Rightarrow> bool \<times> cleaner \<times> world" where
  "backupHistoryFile env c w =
     (if interrupted c then (False, c, to_cerr [IntBeforeBackup] w)
      else
        (let orig = effectiveHistoryFilePath c;
             bp = path_append (parent_path orig)
                    (filename orig @ ''.backup_'' @ randomName36 (backup_draw env));
             (ec, fs') = fs_copy_file env orig bp (w_fs w)
         in if ec then (False, c\<lparr>backupFilePath := []\<rparr>, to_cerr [ErrBackup bp] w)
            else (True, c\<lparr>backupFilePath := bp\<rparr>, to_cout [BackupCreated bp] (w\<lparr>w_fs := fs'\<rparr>))))"

text \<open>
  \<open>HistoryCleaner::performCleanup\<close>, lines 1205-1234. \<open>None\<close> is the run in which
  \<open>secureDelete\<close> does not return.
\<close>

definition performCleanup ::
  "io_env \<Rightarrow> cleaner \<Rightarrow> world \<Rightarrow> (bool \<times> cleaner \<times> world) option" where
  "performCleanup env c w =
     (if interrupted c then Some (False, c, to_cerr [IntBeforeCleanup] w)
      else if dryRun c then Some (True, c, to_output [DryRunNoChanges] w)
      else
        (let (bok, c1, w1) = (if doBackup c then backupHistoryFile env c w else (True, c, w))
         in if doBackup c \<and> \<not> bok then Some (False, c1, to_cerr [BackupFailedAbort] w1)
            else if doBackup c \<and> interrupted c1 then Some (False, c1, to_cerr [IntAfterBackup] w1)
            else
              (let w2 = to_output [SecurelyDeleting (effectiveHistoryFilePath c1)] w1
               in case secureDelete env (effectiveHistoryFilePath c1) (shredPasses c1) (w_fs w2) of
                    None \<Rightarrow> None
                  | Some r \<Rightarrow>
                      (let w3 = to_cerr (map SdLog (sd_log r))
                                  (w2\<lparr>w_fs := sd_fs r, w_trace := w_trace w2 @ sd_trace r\<rparr>)
                       in if \<not> sd_ret r
                          then Some (False, c1, to_cerr [ErrSecureDelete, MightStillExist] w3)
                          else Some (True, c1, to_output [SecurelyDeleted] w3)))))"

text \<open>
  What the new file holds after \<open>newFile.close()\<close> (line 1156). The stream buffers what
  is written to it, and the source does not look at the stream after closing it: when
  the final flush fails, only the first \<open>n\<close> bytes have reached the file and the run goes
  on all the same.
\<close>

definition flushed :: "io_env \<Rightarrow> string \<Rightarrow> string" where
  "flushed env bytes = (case close_flush_limit env of None \<Rightarrow> bytes | Some n \<Rightarrow> take n bytes)"

text \<open>
  The second half of \<open>processHistory\<close>, lines 1128-1174, for the entries that the first
  pass kept: the new file under a random name, the erase of the original, the rename.
\<close>

definition commit ::
  "io_env \<Rightarrow> cleaner \<Rightarrow> world \<Rightarrow> string list \<Rightarrow> (bool \<times> cleaner \<times> world) option" where
  "commit env c0 w kept =
     (let temp = path_append (parent_path (effectiveHistoryFilePath c0))
                   (randomName36 (temp_draw env));
          c = c0\<lparr>tempFilePath := temp\<rparr>
      in if create_fails env temp then Some (False, c, to_cerr [ErrCreateNew] w)
         else
           (case (case entry_write_fails_at env of
                    Some i \<Rightarrow> if i < length kept then Some i else None
                  | None \<Rightarrow> None) of
              Some i \<Rightarrow>
                Some (False,
                      cleanup env c
                        (to_cerr [ErrWriteNew]
                           (w\<lparr>w_fs := (w_fs w)(temp \<mapsto> Regular (concat (take i kept)))\<rparr>)))
            | None \<Rightarrow>
                (case performCleanup env c
                        (w\<lparr>w_fs := (w_fs w)(temp \<mapsto> Regular (flushed env (concat kept)))\<rparr>) of
                   None \<Rightarrow> None
                 | Some (ok, c1, w2) \<Rightarrow>
                     (if \<not> ok then Some (False, cleanup env c1 w2)
                      else
                        (let (ec, fs') = fs_rename env (tempFilePath c1)
                                           (effectiveHistoryFilePath c1) (w_fs w2)
                         in if ec then Some (False, cleanup env c1 (to_cerr [ErrRenameNew] w2))
                            else Some (True, c1\<lparr>tempFilePath := []\<rparr>, w2\<lparr>w_fs := fs'\<rparr>))))))"

text \<open>
  Lines 1046-1050 and the first \<open>getline\<close>: the bytes of the history file, or the message
  with which \<open>processHistory\<close> gives up when it cannot read it.
\<close>

definition openHistory :: "io_env \<Rightarrow> path \<Rightarrow> filesystem \<Rightarrow> hc_msg + string" where
  "openHistory env p fs =
     (case fs p of
        None \<Rightarrow> Inl (ErrReadNear 0)
      | Some Other \<Rightarrow> Inl (if read_open_fails env p then ErrCannotOpenHistory else ErrReadNear 0)
      | Some (Regular content) \<Rightarrow>
          if read_open_fails env p then Inl ErrCannotOpenHistory else Inr content)"

text \<open>\<open>HistoryCleaner::processHistory\<close>, lines 1040-1175.\<close>

definition processHistory ::
  "io_env \<Rightarrow> cleaner \<Rightarrow> world \<Rightarrow> (bool \<times> cleaner \<times> world) option" where
  "processHistory env c w =
     (if interrupted c then Some (False, c, to_cerr [IntBeforeProcessing] w)
      else case openHistory env (effectiveHistoryFilePath c) (w_fs w) of
        Inl m \<Rightarrow> Some (False, c, to_cerr [m] w)
      | Inr content \<Rightarrow>
          (let (ok, st) = scanHistory c env content;
               w1 = to_output (scan_output st) (to_cerr (scan_cerr st) w)
           in if \<not> ok then Some (False, c, w1)
              else
                (let w2 = to_cout [Summary (lineNum st) (keptCount st) (deletedCount st)] w1
                 in if dryRun c then Some (True, c, w2)
                    else commit env c w2 (keptEntries st))))"

section \<open>Notions used to state the properties, and sample inputs\<close>

text \<open>
  The sizes of the \<open>write\<close> calls that cover \<open>r\<close> bytes in pieces of at most
  \<open>SHRED_BUFFER_SIZE\<close>, and the system calls of one complete pass over a file of \<open>n\<close>
  bytes.
\<close>

function chunks :: "nat \<Rightarrow> nat list" where
  "chunks r = (if r = 0 then [] else min SHRED_BUFFER_SIZE r # chunks (r - min SHRED_BUFFER_SIZE r))"
  by pat_completeness auto
termination
  by (relation "measure id") (auto simp: SHRED_BUFFER_SIZE_def)

declare chunks.simps [simp del]

definition one_pass :: "nat \<Rightarrow> syscall list" where
  "one_pass n = SysSeek 0 # map SysWrite (chunks n) @ [SysFsync]"

text \<open>The number of bytes that the system calls of a trace put into the file.\<close>

fun bytes_written :: "syscall list \<Rightarrow> nat" where
  "bytes_written [] = 0"
| "bytes_written (SysWrite n # tr) = n + bytes_written tr"
| "bytes_written (c # tr) = bytes_written tr"

text \<open>The randomized sibling name that \<open>secureDelete\<close> renames a file to (line 159).\<close>

definition obscurePathOf :: "io_env \<Rightarrow> path \<Rightarrow> path" where
  "obscurePathOf env filepath = path_append (parent_path filepath) (obscureName env)"

text \<open>An environment in which every call succeeds, a history path, a one-file system.\<close>

definition quiet_env :: io_env where
  "quiet_env = \<lparr>status_error = (\<lambda>p. False), size_error = (\<lambda>p. False),
     open_sync = (\<lambda>p. None), open_plain = (\<lambda>p. None), seek_fails = (\<lambda>n. False),
     write_res = (\<lambda>k. Written_all), fsync_fails = (\<lambda>n. False),
     rand_byte = (\<lambda>n i. CHR ''#''), obscure_draw = (\<lambda>i. 26 + i),
     rename_fails = (\<lambda>p q. False), remove_fails = (\<lambda>p. False),
     read_open_fails = (\<lambda>p. False), read_error_at = None, temp_draw = (\<lambda>i. 10 + i),
     create_fails = (\<lambda>p. False), entry_write_fails_at = None,
     close_flush_limit = None, backup_draw = (\<lambda>i. 2 * i),
     copy_fails = (\<lambda>p q. False)\<rparr>"

definition hist :: path where
  "hist = [''home'', ''.zsh_history'']"

definition fs_with :: "string \<Rightarrow> filesystem" where
  "fs_with content = [hist \<mapsto> Regular content]"

text \<open>
  The notions of the specification. The timestamp of a record is the value read from
  the header line of a well-formed block; \<open>inWindow\<close> and \<open>matches\<close> are the time and
  content filters as the specification words them; the command text of a header line is
  what follows its first \<open>;\<close>, without leading blanks and tabs.
\<close>

definition timestampOf :: "string \<Rightarrow> int option" where
  "timestampOf block =
     (case find_char block NL of
        None \<Rightarrow> None
      | Some n \<Rightarrow>
          (case matchHeader (take n block) of
             None \<Rightarrow> None
           | Some ds \<Rightarrow> (case stoll ds of Value t \<Rightarrow> Some t | _ \<Rightarrow> None)))"

definition headerLine :: "string \<Rightarrow> string" where
  "headerLine block = takeWhile (\<lambda>ch. ch \<noteq> NL) block"

definition commandText :: "string \<Rightarrow> string" where
  "commandText line =
     dropWhile (\<lambda>ch. ch = CHR '' '' \<or> ch = CHR 0x09) (tl (dropWhile (\<lambda>ch. ch \<noteq> CHR '';'') line))"

definition inWindow :: "cleaner \<Rightarrow> int \<Rightarrow> bool" where
  "inWindow c ts = (startTimestamp c \<le> ts \<and> ts \<le> endTimestamp c)"

definition matches :: "cleaner \<Rightarrow> string \<Rightarrow> bool" where
  "matches c text =
     ((filterKeywords c = [] \<and> filterRegexes c = [])
      \<or> (\<exists>k \<in> set (filterKeywords c). sublist k text)
      \<or> (\<exists>r \<in> set (filterRegexes c). r text))"

text \<open>Sample inputs: a configuration for all time without filters, a clock, a text.\<close>

definition cleaner0 :: cleaner where
  "cleaner0 = \<lparr>tempFilePath = [], backupFilePath = [], effectiveHistoryFilePath = hist,
     mode = ALL_TIME, startDateStr = [], endDateStr = [], specificDateStr = [],
     olderThanDays = -1, doBackup = False, dryRun = False, preciseTime = False,
     shredPasses = 2, startTimestamp = 0, endTimestamp = TIME_MAX,
     filterKeywords = [], filterRegexes = [], interrupted = False\<rparr>"

definition sample_clock :: clock where
  "sample_clock = \<lparr>now = 1717243200, date_to_epoch = (\<lambda>s p. Some 1704067200),
     start_of_day = (\<lambda>t. t - t mod 86400), end_of_day = (\<lambda>t. t - t mod 86400 + 86399)\<rparr>"

definition text_of :: "string list \<Rightarrow> string" where
  "text_of ls = concat (map (\<lambda>l. l @ [NL]) ls)"

definition world_with :: "string \<Rightarrow> world" where
  "world_with content =
     \<lparr>w_fs = fs_with content, w_cerr = [], w_cout = [], w_output = [], w_trace = []\<rparr>"

text \<open>
  The state in which the loop of \<open>processHistory\<close> is after \<open>pre\<close>, lines read before
  any header line: one kept entry, one count and one warning for each of them.
\<close>

definition after_preamble :: "cleaner \<Rightarrow> string list \<Rightarrow> scan_state" where
  "after_preamble c pre =
     \<lparr>lineNum = length pre, keptCount = length pre, deletedCount = 0,
      currentCommandBlock = [],
      keptEntries = (if dryRun c then [] else map (\<lambda>l. stripCR l @ [NL]) pre),
      scan_cerr = map WarnPreamble [1..<length pre + 1], scan_output = []\<rparr>"

text \<open>
  A text with one trailing carriage return taken from each line and a newline after
  every line; and a text with a newline added when its last line has none.
\<close>

definition normalise :: "string \<Rightarrow> string" where
  "normalise content = concat (map (\<lambda>l. stripCR l @ [NL]) (getlines content))"

definition terminated :: "string \<Rightarrow> string" where
  "terminated s = (if s = [] \<or> last s = NL then s else s @ [NL])"

text \<open>
  The paths that \<open>processHistory\<close> and \<open>backupHistoryFile\<close> make up (lines 1137 and
  1190), and the parts of a result of \<open>processHistory\<close>: the value returned, the recorded
  temporary path, and the node at a path afterwards.
\<close>

definition tempPathOf :: "io_env \<Rightarrow> cleaner \<Rightarrow> path" where
  "tempPathOf env c =
     path_append (parent_path (effectiveHistoryFilePath c)) (randomName36 (temp_draw env))"

definition backupPathOf :: "io_env \<Rightarrow> cleaner \<Rightarrow> path" where
  "backupPathOf env c =
     path_append (parent_path (effectiveHistoryFilePath c))
       (filename (effectiveHistoryFilePath c) @ ''.backup_'' @ randomName36 (backup_draw env))"

definition returned :: "(bool \<times> cleaner \<times> world) option \<Rightarrow> bool option" where
  "returned res = map_option fst res"

definition temp_after :: "(bool \<times> cleaner \<times> world) option \<Rightarrow> path option" where
  "temp_after res = map_option (\<lambda>(ok, c, w). tempFilePath c) res"

definition node_after :: "(bool \<times> cleaner \<times> world) option \<Rightarrow> path \<Rightarrow> node option" where
  "node_after res p = (case res of None \<Rightarrow> None | Some (ok, c, w) \<Rightarrow> w_fs w p)"

text \<open>
  The world after the first pass of \<open>processHistory\<close> (the warnings, the dry-run
  report and the summary line are out), and the world once the new file is written.
\<close>

definition after_scan :: "world \<Rightarrow> scan_state \<Rightarrow> world" where
  "after_scan w st =
     to_cout [Summary (lineNum st) (keptCount st) (deletedCount st)]
       (to_output (scan_output st) (to_cerr (scan_cerr st) w))"

definition with_temp :: "io_env \<Rightarrow> cleaner \<Rightarrow> world \<Rightarrow> string list \<Rightarrow> world" where
  "with_temp env c w kept =
     w\<lparr>w_fs := (w_fs w)(tempPathOf env c \<mapsto> Regular (flushed env (concat kept)))\<rparr>"

text \<open>
  More sample inputs: an environment that refuses the rename onto the history file, one
  that cannot create the new file, and a configuration whose window is empty.
\<close>

definition rename_refused_env :: io_env where
  "rename_refused_env = quiet_env\<lparr>rename_fails := (\<lambda>p q. q = hist)\<rparr>"

definition create_refused_env :: io_env where
  "create_refused_env = quiet_env\<lparr>create_fails := (\<lambda>p. True)\<rparr>"

definition keep_all :: cleaner where
  "keep_all = cleaner0\<lparr>startTimestamp := 1, endTimestamp := 0\<rparr>"

text \<open>
  The raw bytes of the record that a header line and the continuation lines after it
  make up in \<open>currentCommandBlock\<close>.
\<close>

definition recordOf :: "string \<Rightarrow> string list \<Rightarrow> string" where
  "recordOf h conts = stripCR h @ [NL] @ concat (map (\<lambda>l. stripCR l @ [NL]) conts)"

section \<open>Properties of secureDelete\<close>

lemma sum_list_chunks: "sum_list (chunks r) = r"
proof (induction r rule: less_induct)
  case (less r)
  show ?case
  proof (cases "r = 0")
    case True
    then show ?thesis by (simp add: chunks.simps)
  next
    case False
    then have "r - min SHRED_BUFFER_SIZE r < r"
      by (simp add: SHRED_BUFFER_SIZE_def)
    from less.IH [OF this] False show ?thesis
      by (subst chunks.simps) (simp add: SHRED_BUFFER_SIZE_def)
  qed
qed

lemma bytes_written_append: "bytes_written (xs @ ys) = bytes_written xs + bytes_written ys"
  by (induction xs rule: bytes_written.induct) simp_all

lemma bytes_written_writes: "bytes_written (map SysWrite ns) = sum_list ns"
  by (induction ns) simp_all

lemma bytes_written_one_pass: "bytes_written (one_pass n) = n"
  by (simp add: one_pass_def bytes_written_append bytes_written_writes sum_list_chunks)

lemma bytes_written_passes: "bytes_written (concat (replicate k (one_pass n))) = k * n"
  by (induction k) (simp_all add: bytes_written_append bytes_written_one_pass)

text \<open>When every \<open>write\<close> is complete the inner loop ends, having covered the file.\<close>

lemma writeLoop_all:
  assumes "\<forall>k. write_res env k = Written_all"
  shows "\<exists>st'. writeLoop env buf r st = Some (True, st')
           \<and> st_trace st' = st_trace st @ map SysWrite (chunks r)
           \<and> st_log st' = st_log st"
proof (induction r arbitrary: st rule: less_induct)
  case (less r)
  show ?case
  proof (cases "r = 0")
    case True
    then show ?thesis by (subst writeLoop.simps) (simp add: chunks.simps)
  next
    case False
    let ?w = "min SHRED_BUFFER_SIZE r"
    from False have lt: "r - ?w < r"
      by (simp add: SHRED_BUFFER_SIZE_def)
    from less.IH [OF lt, of "do_write buf ?w st"]
    obtain st' where st': "writeLoop env buf (r - ?w) (do_write buf ?w st) = Some (True, st')"
      "st_trace st' = st_trace (do_write buf ?w st) @ map SysWrite (chunks (r - ?w))"
      "st_log st' = st_log (do_write buf ?w st)"
      by blast
    have "writeLoop env buf r st = Some (True, st')"
      using False assms st'(1) by (subst writeLoop.simps) (simp add: Let_def)
    moreover have "st_trace st' = st_trace st @ map SysWrite (chunks r)"
      using False st'(2) chunks.simps [of r] by (simp add: do_write_def)
    moreover have "st_log st' = st_log st"
      using st'(3) by (simp add: do_write_def)
    ultimately show ?thesis by blast
  qed
qed

lemma passLoop_all:
  assumes w: "\<forall>k. write_res env k = Written_all" and s: "\<forall>p. \<not> seek_fails env p"
  shows "\<exists>st'. passLoop env pass passes n st = Some (True, st')
           \<and> st_trace st' = st_trace st @ concat (replicate (nat (passes + 1 - pass)) (one_pass n))
           \<and> ((\<forall>p. \<not> fsync_fails env p) \<longrightarrow> st_log st' = st_log st)"
proof (induction "nat (passes + 1 - pass)" arbitrary: pass st)
  case 0
  then have "\<not> pass \<le> passes" by simp
  then show ?case by (subst passLoop.simps) simp
next
  case (Suc m)
  then have le: "pass \<le> passes" and m: "m = nat (passes + 1 - (pass + 1))" by simp_all
  let ?st1 = "st\<lparr>st_offset := 0, st_trace := st_trace st @ [SysSeek 0]\<rparr>"
  from writeLoop_all [OF w, of "fillRandom env pass" n ?st1]
  obtain st2 where st2: "writeLoop env (fillRandom env pass) n ?st1 = Some (True, st2)"
    "st_trace st2 = st_trace ?st1 @ map SysWrite (chunks n)"
    "st_log st2 = st_log ?st1" by blast
  let ?st3 = "(if fsync_fails env pass then add_log WarnFsync else id)
                (st2\<lparr>st_trace := st_trace st2 @ [SysFsync]\<rparr>)"
  have ns: "\<not> seek_fails env pass" using s by simp
  from Suc.hyps(1) [OF m, of ?st3]
  obtain st' where st': "passLoop env (pass + 1) passes n ?st3 = Some (True, st')"
    "st_trace st' = st_trace ?st3 @ concat (replicate (nat (passes + 1 - (pass + 1))) (one_pass n))"
    "(\<forall>p. \<not> fsync_fails env p) \<longrightarrow> st_log st' = st_log ?st3"
    by blast
  have "passLoop env pass passes n st = Some (True, st')"
    using le ns st2(1) st'(1) by (subst passLoop.simps) simp
  moreover have "nat (passes + 1 - pass) = Suc (nat (passes + 1 - (pass + 1)))"
    using le by simp
  then have "st_trace st' = st_trace st @ concat (replicate (nat (passes + 1 - pass)) (one_pass n))"
    using st'(2) st2(2) by (simp add: one_pass_def add_log_def)
  moreover have "(\<forall>p. \<not> fsync_fails env p) \<longrightarrow> st_log st' = st_log st"
    using st'(3) st2(3) by simp
  ultimately show ?case by blast
qed

lemma rename_and_delete_props:
  assumes "fs filepath = Some n"
  shows "sd_trace (rename_and_delete env filepath fs tr lg) =
           tr @ [SysRename filepath (obscurePathOf env filepath)
                   (\<not> rename_fails env filepath (obscurePathOf env filepath)),
                 SysRemove (if rename_fails env filepath (obscurePathOf env filepath)
                            then filepath else obscurePathOf env filepath)
                   (sd_ret (rename_and_delete env filepath fs tr lg))]"
    and "sd_ret (rename_and_delete env filepath fs tr lg) \<Longrightarrow>
           sd_fs (rename_and_delete env filepath fs tr lg) filepath = None"
    and "sd_ret (rename_and_delete env filepath fs tr lg) \<Longrightarrow>
           \<not> rename_fails env filepath (obscurePathOf env filepath) \<Longrightarrow>
           sd_fs (rename_and_delete env filepath fs tr lg) (obscurePathOf env filepath) = None"
    and "sd_ret (rename_and_delete env filepath fs tr lg) =
           (\<not> remove_fails env (if rename_fails env filepath (obscurePathOf env filepath)
                                 then filepath else obscurePathOf env filepath))"
  using assms
  by (auto simp: rename_and_delete_def obscurePathOf_def fs_rename_def fs_remove_def Let_def
           split: if_splits option.splits)

text \<open>
  C4. A regular file of \<open>N > 0\<close> bytes, \<open>passes \<ge> 1\<close> (below the largest \<open>int\<close>, so that
  the pass counter cannot overflow), and no error from \<open>open\<close>, \<open>lseek\<close> or \<open>write\<close>:
  \<open>secureDelete\<close> returns; its system calls are exactly \<open>passes\<close> passes, each a seek to
  offset 0 followed by writes that cover the \<open>N\<close> bytes and a sync, then one rename and
  one removal; \<open>passes * N\<close> bytes are written in all. It returns \<open>true\<close> exactly when the
  removal (of the randomized path, or of the original path when the rename failed) is
  not refused; and when it returns \<open>true\<close> the original path is gone, and so is the
  randomized path whenever the file was renamed to it.
\<close>

theorem secureDelete_full_passes:
  assumes reg: "fs filepath = Some (Regular content)" and ne: "content \<noteq> []"
    and ps: "1 \<le> passes" and pm: "passes < 2 ^ 31 - 1"
    and st: "\<not> status_error env filepath" and sz: "\<not> size_error env filepath"
    and op: "fst (open_wronly env filepath) = None"
    and sk: "\<forall>p. \<not> seek_fails env p" and wr: "\<forall>k. write_res env k = Written_all"
  shows "\<exists>r. secureDelete env filepath passes fs = Some r
           \<and> sd_trace r =
               concat (replicate (nat passes) (one_pass (length content))) @
               [SysRename filepath (obscurePathOf env filepath)
                  (\<not> rename_fails env filepath (obscurePathOf env filepath)),
                SysRemove (if rename_fails env filepath (obscurePathOf env filepath)
                           then filepath else obscurePathOf env filepath) (sd_ret r)]
           \<and> bytes_written (sd_trace r) = nat passes * length content
           \<and> sd_ret r =
                 (\<not> remove_fails env (if rename_fails env filepath (obscurePathOf env filepath)
                                       then filepath else obscurePathOf env filepath))
           \<and> (sd_ret r \<longrightarrow> sd_fs r filepath = None
                \<and> (\<not> rename_fails env filepath (obscurePathOf env filepath)
                     \<longrightarrow> sd_fs r (obscurePathOf env filepath) = None))"
proof -
  let ?st0 = "\<lparr>st_content = content, st_offset = 0, st_calls = 0, st_trace = [],
               st_log = snd (open_wronly env filepath)\<rparr>"
  from passLoop_all [OF wr sk, of 1 passes "length content" ?st0]
  obtain st' where pl: "passLoop env 1 passes (length content) ?st0 = Some (True, st')"
    and tr: "st_trace st' = concat (replicate (nat passes) (one_pass (length content)))"
    by auto
  let ?fs1 = "fs(filepath \<mapsto> Regular (st_content st'))"
  let ?r = "rename_and_delete env filepath ?fs1 (st_trace st') (st_log st')"
  have sd: "secureDelete env filepath passes fs = Some ?r"
    using reg ne st sz op pl
    by (cases "open_wronly env filepath") (simp add: secureDelete_def Let_def)
  have f1: "?fs1 filepath = Some (Regular (st_content st'))" by simp
  note props = rename_and_delete_props [where fs = ?fs1 and filepath = filepath and env = env
      and tr = "st_trace st'" and lg = "st_log st'", OF f1]
  have t: "sd_trace ?r = concat (replicate (nat passes) (one_pass (length content))) @
               [SysRename filepath (obscurePathOf env filepath)
                  (\<not> rename_fails env filepath (obscurePathOf env filepath)),
                SysRemove (if rename_fails env filepath (obscurePathOf env filepath)
                           then filepath else obscurePathOf env filepath) (sd_ret ?r)]"
    using props(1) tr by simp
  have b: "bytes_written (sd_trace ?r) = nat passes * length content"
    by (subst t) (simp add: bytes_written_append bytes_written_passes)
  show ?thesis
    using sd t b props(2) props(3) props(4) by blast
qed

theorem secureDelete_full_passes_witness:
  "\<exists>r. secureDelete quiet_env hist 3 (fs_with ''secret'') = Some r
        \<and> bytes_written (sd_trace r) = 18
        \<and> sd_ret r \<and> sd_fs r hist = None \<and> sd_fs r (obscurePathOf quiet_env hist) = None"
proof -
  have reg: "fs_with ''secret'' hist = Some (Regular ''secret'')"
    by (simp add: fs_with_def)
  have ne: "''secret'' \<noteq> []" and ps: "(1::int) \<le> 3" and pm: "(3::int) < 2 ^ 31 - 1"
    by simp_all
  have st: "\<not> status_error quiet_env hist" and sz: "\<not> size_error quiet_env hist"
    and op: "fst (open_wronly quiet_env hist) = None"
    and sk: "\<forall>p. \<not> seek_fails quiet_env p"
    and wr: "\<forall>k. write_res quiet_env k = Written_all"
    and rn: "\<not> rename_fails quiet_env hist (obscurePathOf quiet_env hist)"
    and rm: "\<not> remove_fails quiet_env (obscurePathOf quiet_env hist)"
    by (simp_all add: quiet_env_def open_wronly_def)
  from secureDelete_full_passes [where fs = "fs_with ''secret''" and filepath = hist
      and env = quiet_env, OF reg ne ps pm st sz op sk wr] rn rm
  show ?thesis by auto
qed

text \<open>
  C10. A regular non-empty file, \<open>passes \<le> 0\<close>, and a file that can be opened:
  \<open>secureDelete\<close> returns having made no \<open>lseek\<close> and no \<open>write\<close> call at all, only the
  rename to the randomized sibling name and the removal; no byte is written; and when
  the rename and the removal are not refused the result is \<open>true\<close>, with neither path left.
\<close>

theorem secureDelete_no_passes:
  assumes reg: "fs filepath = Some (Regular content)" and ne: "content \<noteq> []"
    and ps: "passes \<le> 0"
    and st: "\<not> status_error env filepath" and sz: "\<not> size_error env filepath"
    and op: "fst (open_wronly env filepath) = None"
  shows "\<exists>r. secureDelete env filepath passes fs = Some r
           \<and> sd_trace r =
               [SysRename filepath (obscurePathOf env filepath)
                  (\<not> rename_fails env filepath (obscurePathOf env filepath)),
                SysRemove (if rename_fails env filepath (obscurePathOf env filepath)
                           then filepath else obscurePathOf env filepath) (sd_ret r)]
           \<and> bytes_written (sd_trace r) = 0
           \<and> (\<not> rename_fails env filepath (obscurePathOf env filepath)
                \<and> \<not> remove_fails env (obscurePathOf env filepath)
                \<longrightarrow> sd_ret r
                    \<and> sd_fs r = (fs(filepath := None))(obscurePathOf env filepath := None))"
proof -
  let ?st0 = "\<lparr>st_content = content, st_offset = 0, st_calls = 0, st_trace = [],
               st_log = snd (open_wronly env filepath)\<rparr>"
  have pl: "passLoop env 1 passes (length content) ?st0 = Some (True, ?st0)"
    using ps by (subst passLoop.simps) simp
  have fs1: "fs(filepath \<mapsto> Regular content) = fs"
    using reg by (simp add: fun_upd_idem)
  let ?r = "rename_and_delete env filepath fs [] (snd (open_wronly env filepath))"
  have sd: "secureDelete env filepath passes fs = Some ?r"
    using reg ne st sz op pl fs1
    by (cases "open_wronly env filepath") (simp add: secureDelete_def Let_def)
  note props = rename_and_delete_props [where fs = fs and filepath = filepath and env = env
      and tr = "[]" and lg = "snd (open_wronly env filepath)", OF reg]
  have t: "sd_trace ?r = [SysRename filepath (obscurePathOf env filepath)
                  (\<not> rename_fails env filepath (obscurePathOf env filepath)),
                SysRemove (if rename_fails env filepath (obscurePathOf env filepath)
                           then filepath else obscurePathOf env filepath) (sd_ret ?r)]"
    using props(1) by simp
  have b: "bytes_written (sd_trace ?r) = 0"
    by (subst t) simp
  have ok: "\<not> rename_fails env filepath (obscurePathOf env filepath)
                \<and> \<not> remove_fails env (obscurePathOf env filepath)
                \<longrightarrow> sd_ret ?r
                    \<and> sd_fs ?r = (fs(filepath := None))(obscurePathOf env filepath := None)"
    using reg
    by (auto simp: rename_and_delete_def obscurePathOf_def fs_rename_def fs_remove_def Let_def)
  show ?thesis
    using sd t b ok by blast
qed

theorem secureDelete_no_passes_witness:
  "\<exists>r. secureDelete quiet_env hist 0 (fs_with ''secret'') = Some r
        \<and> sd_trace r = [SysRename hist (obscurePathOf quiet_env hist) True,
                         SysRemove (obscurePathOf quiet_env hist) True]
        \<and> bytes_written (sd_trace r) = 0
        \<and> sd_ret r
        \<and> sd_fs r = ((fs_with ''secret'')(hist := None))(obscurePathOf quiet_env hist := None)"
proof -
  have reg: "fs_with ''secret'' hist = Some (Regular ''secret'')"
    by (simp add: fs_with_def)
  have ne: "''secret'' \<noteq> []" and ps: "(0::int) \<le> 0" by simp_all
  have st: "\<not> status_error quiet_env hist" and sz: "\<not> size_error quiet_env hist"
    and op: "fst (open_wronly quiet_env hist) = None"
    and rn: "\<not> rename_fails quiet_env hist (obscurePathOf quiet_env hist)"
    and rm: "\<not> remove_fails quiet_env (obscurePathOf quiet_env hist)"
    by (simp_all add: quiet_env_def open_wronly_def)
  from secureDelete_no_passes [where fs = "fs_with ''secret''" and filepath = hist
      and env = quiet_env, OF reg ne ps st sz op] rn rm
  show ?thesis by auto
qed

text \<open>
  C2. The first \<open>write\<close> of the first pass fails with \<open>EIO\<close> and the plain removal
  succeeds: the passes are abandoned after one seek and one failed write, the error is
  logged, the file is removed, and \<open>secureDelete\<close> returns \<open>true\<close>.
\<close>

theorem secureDelete_write_error_returns_true:
  "secureDelete (quiet_env\<lparr>write_res := \<lambda>k. Write_error EIO\<rparr>) hist 32 (fs_with ''secret'')
     = Some \<lparr>sd_ret = True, sd_fs = (fs_with ''secret'')(hist := None),
             sd_trace = [SysSeek 0, SysWrite 0, SysRemove hist True],
             sd_log = [ErrWrite EIO]\<rparr>"
  by (simp add: secureDelete_def open_wronly_def quiet_env_def fs_with_def passLoop.simps
        writeLoop.simps return_remove_def fs_remove_def do_write_def add_log_def
        overwrite_def SHRED_BUFFER_SIZE_def Let_def)

section \<open>Properties of the deletion decision and of the time window\<close>

lemma str_find_sublist: "str_find s k = None \<longleftrightarrow> \<not> sublist k s"
  by (induction s) (auto simp: sublist_Cons_right)

lemma keywordLoop_iff: "keywordLoop ks cmd \<longleftrightarrow> (\<exists>k \<in> set ks. sublist k cmd)"
  by (induction ks) (auto simp: str_find_sublist simp del: str_find.simps)

lemma regexLoop_iff: "regexLoop rs cmd \<longleftrightarrow> (\<exists>r \<in> set rs. r cmd)"
  by (induction rs) auto

lemma commandOf_commandText:
  "find_char line (CHR '';'') = Some n \<Longrightarrow> commandOf line n = commandText line"
  by (auto simp: find_char_def commandOf_def commandText_def dropWhile_eq_drop drop_Suc tl_drop
           split: if_splits)

lemma matchHeader_semicolon:
  assumes "matchHeader line = Some ds"
  shows "CHR '';'' \<in> set line"
proof -
  from assms obtain c1 s1 where l1: "dropWhile is_space line = c1 # s1"
    by (auto simp: matchHeader_def split: list.splits)
  from assms l1 obtain c2 s3 where l2: "dropWhile is_digit (dropWhile is_space s1) = c2 # s3"
    by (auto simp: matchHeader_def Let_def split: list.splits if_splits)
  from assms l1 l2 obtain rest where
    l3: "dropWhile is_space (dropWhile is_digit s3) = CHR '';'' # rest"
    by (auto simp: matchHeader_def Let_def split: list.splits if_splits)
  have "CHR '';'' \<in> set (dropWhile is_space (dropWhile is_digit s3))"
    by (simp add: l3)
  then have "CHR '';'' \<in> set s3"
    by (meson set_dropWhileD)
  then have "CHR '';'' \<in> set (dropWhile is_digit (dropWhile is_space s1))"
    by (simp add: l2)
  then have "CHR '';'' \<in> set s1"
    by (meson set_dropWhileD)
  then have "CHR '';'' \<in> set (dropWhile is_space line)"
    by (simp add: l1)
  then show ?thesis
    by (meson set_dropWhileD)
qed

lemma shouldDeleteOf_matches:
  assumes "matchHeader line = Some ds"
  shows "shouldDeleteOf c line = matches c (commandText line)"
proof -
  from matchHeader_semicolon [OF assms]
  obtain n where n: "find_char line (CHR '';'') = Some n"
    by (simp add: find_char_def)
  have cmd: "commandOf line n = commandText line"
    by (rule commandOf_commandText [OF n])
  show ?thesis
    by (cases "filterKeywords c = []"; cases "filterRegexes c = []")
       (auto simp: shouldDeleteOf_def matches_def n cmd keywordLoop_iff regexLoop_iff Let_def)
qed

lemma headerLine_take:
  "find_char block NL = Some n \<Longrightarrow> take n block = headerLine block"
  using takeWhile_eq_take [of "\<lambda>ch. ch \<noteq> NL" block]
  by (auto simp: find_char_def headerLine_def split: if_splits)

text \<open>
  C5. For a well-formed record (a block whose header line matches and whose timestamp
  \<open>ts\<close> is in range) \<open>processCommandBlock\<close> answers \<open>inWindow ts \<and> matches commandText\<close>,
  where \<open>matches\<close> holds when both lists are empty and otherwise exactly when some keyword
  is a substring or some pattern matches: the loops that stop early and the skipped
  pattern loop compute the plain disjunction.
\<close>

theorem decision_is_window_and_matches:
  assumes "timestampOf block = Some ts"
  shows "fst (processCommandBlock c block ln st)
           = (inWindow c ts \<and> matches c (commandText (headerLine block)))"
proof -
  from assms obtain n ds where n: "find_char block NL = Some n"
    and m: "matchHeader (take n block) = Some ds" and v: "stoll ds = Value ts"
    by (auto simp: timestampOf_def split: option.splits stoll_result.splits)
  show ?thesis
    using n m v shouldDeleteOf_matches [OF m, of c] headerLine_take [OF n]
    by (simp add: processCommandBlock_def Let_def inWindow_def)
qed

lemmas header_eval = timestampOf_def find_char_def matchHeader_def stoll_def is_space_def
  is_digit_def is_any_def digit_val_def LLONG_MAX_def NL_def CR_def Let_def

theorem decision_is_window_and_matches_witness:
  "fst (processCommandBlock (cleaner0\<lparr>filterKeywords := [''apt'']\<rparr>)
          ('': 1700000000:0; sudo apt update'' @ [NL]) 1 scan_init)
     = (inWindow (cleaner0\<lparr>filterKeywords := [''apt'']\<rparr>) 1700000000
        \<and> matches (cleaner0\<lparr>filterKeywords := [''apt'']\<rparr>)
              (commandText (headerLine ('': 1700000000:0; sudo apt update'' @ [NL]))))"
proof -
  have h: "timestampOf ('': 1700000000:0; sudo apt update'' @ [NL]) = Some 1700000000"
    by (simp add: header_eval)
  show ?thesis
    by (rule decision_is_window_and_matches [OF h])
qed

text \<open>
  C3. Mode \<open>BEFORE\<close> with the precise flag and \<open>t(d) = 1704067200\<close>: the window ends at
  \<open>t(d)\<close> itself, and a record stamped \<open>t(d)\<close> is deleted.
\<close>

theorem before_precise_deletes_the_instant:
  "calculateTimestamps sample_clock
     (cleaner0\<lparr>mode := BEFORE, preciseTime := True, specificDateStr := ''2024-01-01 00:00:00''\<rparr>)
   = Inr (cleaner0\<lparr>mode := BEFORE, preciseTime := True,
                   specificDateStr := ''2024-01-01 00:00:00'',
                   startTimestamp := 0, endTimestamp := 1704067200\<rparr>)
   \<and> fst (processCommandBlock
            (cleaner0\<lparr>mode := BEFORE, preciseTime := True,
                      specificDateStr := ''2024-01-01 00:00:00'',
                      startTimestamp := 0, endTimestamp := 1704067200\<rparr>)
            ('': 1704067200:0;ls'' @ [NL]) 1 scan_init)"
  by (simp add: calculateTimestamps_def sample_clock_def cleaner0_def processCommandBlock_def
        shouldDeleteOf_def header_eval)

text \<open>
  C7. In a dry run, whatever the mode, the window, the filters and the environment,
  \<open>processHistory\<close> returns with the file system as it found it (the history file has
  the same bytes, no other file exists that did not), with no system call of the eraser
  made and with the recorded temporary path unchanged.
\<close>

theorem dry_run_leaves_files_alone:
  assumes "dryRun c"
  shows "\<exists>ok w'. processHistory env c w = Some (ok, c, w')
           \<and> w_fs w' = w_fs w \<and> w_trace w' = w_trace w"
  using assms
  by (auto simp: processHistory_def to_cerr_def to_cout_def to_output_def Let_def
           split: sum.splits prod.splits)

theorem dry_run_leaves_files_alone_witness:
  "\<exists>ok w'. processHistory quiet_env (cleaner0\<lparr>dryRun := True\<rparr>)
               (world_with (text_of ['': 1700000000:0;ls'', ''pwd''])) = Some (ok, cleaner0\<lparr>dryRun := True\<rparr>, w')
           \<and> w_fs w' = fs_with (text_of ['': 1700000000:0;ls'', ''pwd'']) \<and> w_trace w' = []"
proof -
  have h: "dryRun (cleaner0\<lparr>dryRun := True\<rparr>)" by simp
  from dry_run_leaves_files_alone [OF h, of quiet_env
      "world_with (text_of ['': 1700000000:0;ls'', ''pwd''])"]
  show ?thesis by (simp add: world_with_def)
qed

section \<open>Properties of the first pass\<close>

lemmas scan_eval = scanHistory_def getlines_def loop_abort_def processLine_def flushBlock_def
  processCommandBlock_def shouldDeleteOf_def commandOf_def stripCR_def text_of_def scan_init_def keep_warn_def

lemma processLine_preamble:
  assumes "matchHeader (stripCR l) = None" and "currentCommandBlock st = []"
  shows "processLine c l st =
           st\<lparr>lineNum := lineNum st + 1,
              scan_cerr := scan_cerr st @ [WarnPreamble (lineNum st + 1)],
              keptEntries := (if \<not> dryRun c then keptEntries st @ [stripCR l @ [NL]]
                              else keptEntries st),
              keptCount := keptCount st + 1\<rparr>"
  using assms by (simp add: processLine_def Let_def)

lemma upt_step: "[n + 1..<n + length (l # pre) + 1] = (n + 1) # [n + 1 + 1..<n + 1 + length pre + 1]"
  by (subst upt_rec) simp

lemma scanLoop_preamble:
  assumes "\<forall>l \<in> set pre. matchHeader (stripCR l) = None"
    and "\<not> interrupted c" and "read_error_at env = None"
    and "currentCommandBlock st = []"
  shows "scanLoop c env (pre @ rest) st =
           scanLoop c env rest
             (st\<lparr>lineNum := lineNum st + length pre,
                 keptCount := keptCount st + length pre,
                 keptEntries := keptEntries st @
                    (if dryRun c then [] else map (\<lambda>l. stripCR l @ [NL]) pre),
                 scan_cerr := scan_cerr st @
                    map WarnPreamble [lineNum st + 1..<lineNum st + length pre + 1]\<rparr>)"
  using assms
proof (induction pre arbitrary: st)
  case Nil
  then show ?case by simp
next
  case (Cons l pre)
  let ?st1 = "processLine c l st"
  have p: "?st1 = st\<lparr>lineNum := lineNum st + 1,
              scan_cerr := scan_cerr st @ [WarnPreamble (lineNum st + 1)],
              keptEntries := (if \<not> dryRun c then keptEntries st @ [stripCR l @ [NL]]
                              else keptEntries st),
              keptCount := keptCount st + 1\<rparr>"
    using Cons.prems by (intro processLine_preamble) simp_all
  have na: "loop_abort c env st = None"
    using Cons.prems by (simp add: loop_abort_def)
  have cur: "currentCommandBlock ?st1 = []"
    using Cons.prems by (simp add: p)
  have pre: "\<forall>l \<in> set pre. matchHeader (stripCR l) = None"
    using Cons.prems by simp
  have "scanLoop c env ((l # pre) @ rest) st = scanLoop c env (pre @ rest) ?st1"
    using na by simp
  also have "\<dots> = scanLoop c env rest
             (?st1\<lparr>lineNum := lineNum ?st1 + length pre,
                 keptCount := keptCount ?st1 + length pre,
                 keptEntries := keptEntries ?st1 @
                    (if dryRun c then [] else map (\<lambda>l. stripCR l @ [NL]) pre),
                 scan_cerr := scan_cerr ?st1 @
                    map WarnPreamble [lineNum ?st1 + 1..<lineNum ?st1 + length pre + 1]\<rparr>)"
    by (rule Cons.IH [OF pre Cons.prems(2) Cons.prems(3) cur])
  also have "(?st1\<lparr>lineNum := lineNum ?st1 + length pre,
                 keptCount := keptCount ?st1 + length pre,
                 keptEntries := keptEntries ?st1 @
                    (if dryRun c then [] else map (\<lambda>l. stripCR l @ [NL]) pre),
                 scan_cerr := scan_cerr ?st1 @
                    map WarnPreamble [lineNum ?st1 + 1..<lineNum ?st1 + length pre + 1]\<rparr>)
        = (st\<lparr>lineNum := lineNum st + length (l # pre),
                 keptCount := keptCount st + length (l # pre),
                 keptEntries := keptEntries st @
                    (if dryRun c then [] else map (\<lambda>l. stripCR l @ [NL]) (l # pre)),
                 scan_cerr := scan_cerr st @
                    map WarnPreamble [lineNum st + 1..<lineNum st + length (l # pre) + 1]\<rparr>)"
    unfolding p upt_step by simp
  finally show ?case .
qed

text \<open>
  C9, as the code has it. When the first \<open>k\<close> lines are not header lines, the loop
  handles each of them alone: after them the block is still empty, \<open>k\<close> lines are
  counted as read and \<open>k\<close> as kept, \<open>k\<close> warnings are on \<open>std::cerr\<close>, and outside a dry
  run the kept entries are those \<open>k\<close> lines, one entry each, in order. The loop then goes
  on with the rest from that state.
\<close>

theorem preamble_lines_kept_one_by_one:
  assumes "\<forall>l \<in> set pre. matchHeader (stripCR l) = None"
    and "\<not> interrupted c" and "read_error_at env = None"
  shows "scanLoop c env (pre @ rest) scan_init = scanLoop c env rest (after_preamble c pre)"
  using scanLoop_preamble [OF assms, of scan_init rest]
  by (simp add: scan_init_def after_preamble_def)

theorem preamble_lines_kept_one_by_one_witness:
  "scanLoop cleaner0 quiet_env ([''# notes'', ''''] @ ['': 1:0;ls'']) scan_init
     = scanLoop cleaner0 quiet_env ['': 1:0;ls''] (after_preamble cleaner0 [''# notes'', ''''])"
proof -
  have a: "\<forall>l \<in> set [''# notes'', '''']. matchHeader (stripCR l) = None"
    by (simp add: header_eval stripCR_def)
  have b: "\<not> interrupted cleaner0" by (simp add: cleaner0_def)
  have c: "read_error_at quiet_env = None" by (simp add: quiet_env_def)
  show ?thesis
    by (rule preamble_lines_kept_one_by_one [OF a b c])
qed

text \<open>
  Two lines before the first header, under a window that deletes the record which
  follows: two entries are kept and the kept count is two, not one.
\<close>

theorem preamble_two_lines_two_entries:
  "keptCount (snd (scanHistory cleaner0 quiet_env (text_of [''a'', ''b'', '': 1:0;ls'']))) = 2
   \<and> keptEntries (snd (scanHistory cleaner0 quiet_env (text_of [''a'', ''b'', '': 1:0;ls''])))
       = [''a'' @ [NL], ''b'' @ [NL]]
   \<and> deletedCount (snd (scanHistory cleaner0 quiet_env (text_of [''a'', ''b'', '': 1:0;ls'']))) = 1"
  by (simp add: scan_eval header_eval quiet_env_def cleaner0_def TIME_MAX_def)

lemma text_of_splitLines:
  "NL \<notin> set cur \<Longrightarrow> text_of (splitLines cur s) = terminated (cur @ s)"
proof (induction s arbitrary: cur)
  case Nil
  then show ?case
    by (cases cur rule: rev_cases) (auto simp: text_of_def terminated_def)
next
  case (Cons ch cs)
  show ?case
  proof (cases "ch = NL")
    case True
    have "text_of (splitLines cur (ch # cs)) = cur @ [NL] @ terminated cs"
      using True Cons.IH [of "[]"] by (simp add: text_of_def)
    also have "\<dots> = terminated (cur @ ch # cs)"
      using True by (auto simp: terminated_def)
    finally show ?thesis .
  next
    case False
    then show ?thesis
      using Cons.IH [of "cur @ [ch]"] Cons.prems by simp
  qed
qed

lemma text_of_getlines: "text_of (getlines content) = terminated content"
  using text_of_splitLines [of "[]" content] by (simp add: getlines_def)

lemma normalise_no_CR:
  assumes "\<forall>l \<in> set (getlines content). stripCR l = l"
  shows "normalise content = terminated content"
proof -
  have m: "map (\<lambda>l. stripCR l @ [NL]) (getlines content) = map (\<lambda>l. l @ [NL]) (getlines content)"
    using assms by simp
  show ?thesis
    unfolding normalise_def m using text_of_getlines [of content] by (simp add: text_of_def)
qed

lemma processCommandBlock_frame:
  assumes "processCommandBlock c block ln st = (b, st1)"
  shows "keptEntries st1 = keptEntries st \<and> currentCommandBlock st1 = currentCommandBlock st
         \<and> lineNum st1 = lineNum st
         \<and> deletedCount st1 = deletedCount st + (if b then 1 else 0)"
  using assms
  by (auto simp: processCommandBlock_def keep_warn_def Let_def
           split: option.splits stoll_result.splits if_splits)

lemma flushBlock_deleted_mono: "deletedCount st \<le> deletedCount (flushBlock c ln st)"
proof (cases "processCommandBlock c (currentCommandBlock st) ln st")
  case (Pair b st1)
  from processCommandBlock_frame [OF Pair] show ?thesis
    by (auto simp: flushBlock_def Pair)
qed

lemma flushBlock_lossless:
  assumes "\<not> dryRun c" and "deletedCount (flushBlock c ln st) = deletedCount st"
  shows "concat (keptEntries (flushBlock c ln st)) = concat (keptEntries st) @ currentCommandBlock st"
proof (cases "processCommandBlock c (currentCommandBlock st) ln st")
  case (Pair b st1)
  from processCommandBlock_frame [OF Pair] assms show ?thesis
    by (auto simp: flushBlock_def Pair split: if_splits)
qed

lemma processLine_deleted_mono: "deletedCount st \<le> deletedCount (processLine c l st)"
  using flushBlock_deleted_mono [of "st\<lparr>lineNum := lineNum st + 1\<rparr>" c "lineNum st"]
  by (simp add: processLine_def Let_def)

lemma processLine_lossless:
  assumes "\<not> dryRun c" and "deletedCount (processLine c l st) = deletedCount st"
  shows "concat (keptEntries (processLine c l st)) @ currentCommandBlock (processLine c l st)
           = concat (keptEntries st) @ currentCommandBlock st @ stripCR l @ [NL]"
proof (cases "matchHeader (stripCR l) = None")
  case True
  then show ?thesis
    using assms by (simp add: processLine_def Let_def)
next
  case False
  let ?st = "st\<lparr>lineNum := lineNum st + 1\<rparr>"
  have d: "deletedCount (flushBlock c (lineNum st) ?st) = deletedCount ?st"
    using assms(2) False by (simp add: processLine_def Let_def)
  from flushBlock_lossless [OF assms(1) d] False show ?thesis
    by (simp add: processLine_def Let_def)
qed

lemma scanLoop_deleted_mono: "deletedCount st \<le> deletedCount (snd (scanLoop c env ls st))"
proof (induction ls arbitrary: st)
  case Nil
  then show ?case by (simp split: option.splits)
next
  case (Cons l ls)
  show ?case
  proof (cases "loop_abort c env st")
    case None
    then show ?thesis
      using Cons.IH [of "processLine c l st"] processLine_deleted_mono [of st c l]
      by simp
  next
    case (Some m)
    then show ?thesis by simp
  qed
qed

lemma scanLoop_lossless:
  assumes "\<not> dryRun c" and "scanLoop c env ls st = (True, st')"
    and "deletedCount st' = deletedCount st"
  shows "concat (keptEntries st') @ currentCommandBlock st'
           = concat (keptEntries st) @ currentCommandBlock st @ concat (map (\<lambda>l. stripCR l @ [NL]) ls)"
  using assms(2,3)
proof (induction ls arbitrary: st)
  case Nil
  then show ?case by (simp split: option.splits)
next
  case (Cons l ls)
  let ?st1 = "processLine c l st"
  from Cons.prems(1) have na: "loop_abort c env st = None"
    by (simp split: option.splits)
  with Cons.prems(1) have sl: "scanLoop c env ls ?st1 = (True, st')" by simp
  have "deletedCount ?st1 \<le> deletedCount st'"
    using scanLoop_deleted_mono [of ?st1 c env ls] sl by simp
  with processLine_deleted_mono [of st c l] Cons.prems(2)
  have d1: "deletedCount ?st1 = deletedCount st" by simp
  with Cons.prems(2) have d2: "deletedCount st' = deletedCount ?st1" by simp
  from Cons.IH [OF sl d2] processLine_lossless [OF assms(1) d1]
  show ?case by simp
qed

lemma scanHistory_lossless:
  assumes nd: "\<not> dryRun c" and sc: "scanHistory c env content = (True, st)"
    and d: "deletedCount st = 0"
  shows "concat (keptEntries st) = normalise content"
proof -
  obtain ok st' where sl: "scanLoop c env (getlines content) scan_init = (ok, st')"
    by (cases "scanLoop c env (getlines content) scan_init")
  with sc have ok: "ok" and st: "st = flushBlock c (lineNum st') st'"
    by (auto simp: scanHistory_def split: if_splits)
  have "deletedCount st' \<le> deletedCount st"
    unfolding st by (rule flushBlock_deleted_mono)
  with d have d': "deletedCount st' = 0" by simp
  have fl: "concat (keptEntries st) = concat (keptEntries st') @ currentCommandBlock st'"
    unfolding st using d d' st by (intro flushBlock_lossless [OF nd]) simp
  have "concat (keptEntries st') @ currentCommandBlock st'
          = concat (keptEntries scan_init) @ currentCommandBlock scan_init
            @ concat (map (\<lambda>l. stripCR l @ [NL]) (getlines content))"
    using sl ok d' by (intro scanLoop_lossless [OF nd]) (simp_all add: scan_init_def)
  with fl show ?thesis
    by (simp add: scan_init_def normalise_def)
qed

lemma splitLines_no_NL:
  "NL \<notin> set cur \<Longrightarrow> l \<in> set (splitLines cur s) \<Longrightarrow> NL \<notin> set l"
proof (induction s arbitrary: cur)
  case Nil
  then show ?case by (auto split: if_splits)
next
  case (Cons ch cs)
  show ?case
  proof (cases "ch = NL")
    case True
    with Cons.prems have "l = cur \<or> l \<in> set (splitLines [] cs)" by simp
    then show ?thesis
      using Cons.prems(1) Cons.IH [of "[]"] by auto
  next
    case False
    with Cons.prems have "l \<in> set (splitLines (cur @ [ch]) cs)" by simp
    then show ?thesis
      using Cons.prems(1) False Cons.IH [of "cur @ [ch]"] by auto
  qed
qed

lemma getlines_no_NL: "l \<in> set (getlines content) \<Longrightarrow> NL \<notin> set l"
  using splitLines_no_NL [of "[]" l content] by (simp add: getlines_def)

lemma stripCR_no_NL: "NL \<notin> set l \<Longrightarrow> NL \<notin> set (stripCR l)"
  by (auto simp: stripCR_def dest: in_set_butlastD)

lemma scanLoop_fold:
  assumes "\<not> interrupted c" and "read_error_at env = None"
  shows "scanLoop c env ls st = (True, foldl (\<lambda>s l. processLine c l s) st ls)"
  using assms by (induction ls arbitrary: st) (simp_all add: loop_abort_def)

lemma processCommandBlock_grows:
  assumes "processCommandBlock c block ln st = (b, st1)"
  shows "prefix (scan_cerr st) (scan_cerr st1)"
  using assms
  by (auto simp: processCommandBlock_def keep_warn_def Let_def
           split: option.splits stoll_result.splits if_splits)

lemma flushBlock_grows:
  "prefix (keptEntries st) (keptEntries (flushBlock c ln st))
   \<and> prefix (scan_cerr st) (scan_cerr (flushBlock c ln st))
   \<and> lineNum (flushBlock c ln st) = lineNum st"
proof (cases "processCommandBlock c (currentCommandBlock st) ln st")
  case (Pair b st1)
  from processCommandBlock_frame [OF Pair] processCommandBlock_grows [OF Pair] show ?thesis
    by (auto simp: flushBlock_def Pair)
qed

lemma processLine_grows:
  "prefix (keptEntries st) (keptEntries (processLine c l st))
   \<and> prefix (scan_cerr st) (scan_cerr (processLine c l st))
   \<and> lineNum (processLine c l st) = lineNum st + 1"
  using flushBlock_grows [of "st\<lparr>lineNum := lineNum st + 1\<rparr>" c "lineNum st"]
  by (auto simp: processLine_def Let_def)

lemma fold_grows:
  "prefix (keptEntries st) (keptEntries (foldl (\<lambda>s l. processLine c l s) st ls))
   \<and> prefix (scan_cerr st) (scan_cerr (foldl (\<lambda>s l. processLine c l s) st ls))
   \<and> lineNum (foldl (\<lambda>s l. processLine c l s) st ls) = lineNum st + length ls"
proof (induction ls arbitrary: st)
  case Nil
  then show ?case by simp
next
  case (Cons l ls)
  from Cons.IH [of "processLine c l st"] processLine_grows [of st c l]
  show ?case by (auto intro: prefix_order.trans)
qed

lemma fold_continuation:
  assumes "\<forall>l \<in> set conts. matchHeader (stripCR l) = None"
    and "currentCommandBlock st \<noteq> []"
  shows "foldl (\<lambda>s l. processLine c l s) st conts
           = st\<lparr>lineNum := lineNum st + length conts,
                currentCommandBlock := currentCommandBlock st
                   @ concat (map (\<lambda>l. stripCR l @ [NL]) conts)\<rparr>"
  using assms
proof (induction conts arbitrary: st)
  case Nil
  then show ?case by simp
next
  case (Cons l conts)
  let ?st1 = "st\<lparr>lineNum := lineNum st + 1,
                  currentCommandBlock := currentCommandBlock st @ stripCR l @ [NL]\<rparr>"
  have p: "processLine c l st = ?st1"
    using Cons.prems by (simp add: processLine_def Let_def)
  have "foldl (\<lambda>s l. processLine c l s) ?st1 conts
          = ?st1\<lparr>lineNum := lineNum ?st1 + length conts,
                currentCommandBlock := currentCommandBlock ?st1
                   @ concat (map (\<lambda>l. stripCR l @ [NL]) conts)\<rparr>"
    using Cons.prems by (intro Cons.IH) simp_all
  then show ?case
    by (simp add: p)
qed

lemma out_of_range_block:
  assumes hd: "matchHeader (stripCR h) = Some ds" and oor: "stoll ds = Out_of_range"
    and nl: "NL \<notin> set h"
  shows "processCommandBlock c (recordOf h conts) ln st
           = (False, st\<lparr>keptCount := keptCount st + 1,
                        scan_cerr := scan_cerr st @ [WarnTimestampRange ln]\<rparr>)"
proof -
  have n: "NL \<notin> set (stripCR h)" using nl by (rule stripCR_no_NL)
  then have tw: "takeWhile (\<lambda>x. x \<noteq> NL) (recordOf h conts) = stripCR h"
    unfolding recordOf_def by (auto simp: takeWhile_tail)
  have fc: "find_char (recordOf h conts) NL = Some (length (stripCR h))"
    by (simp add: find_char_def tw) (simp add: recordOf_def)
  have tk: "take (length (stripCR h)) (recordOf h conts) = stripCR h"
    by (simp add: recordOf_def)
  show ?thesis
    using hd oor by (simp add: processCommandBlock_def fc tk keep_warn_def)
qed

lemma out_of_range_flush:
  assumes hd: "matchHeader (stripCR h) = Some ds" and oor: "stoll ds = Out_of_range"
    and nl: "NL \<notin> set h" and cur: "currentCommandBlock st = recordOf h conts"
  shows "keptEntries (flushBlock c ln st)
           = (if dryRun c then keptEntries st else keptEntries st @ [recordOf h conts])
         \<and> scan_cerr (flushBlock c ln st) = scan_cerr st @ [WarnTimestampRange ln]"
proof -
  have ne: "recordOf h conts \<noteq> []" by (simp add: recordOf_def)
  show ?thesis
    using out_of_range_block [OF hd oor nl, of c conts ln st] cur ne
    by (simp add: flushBlock_def)
qed

lemma header_line_step:
  assumes hd: "matchHeader (stripCR h) \<noteq> None"
  shows "processLine c h st
           = (flushBlock c (lineNum st) (st\<lparr>lineNum := lineNum st + 1\<rparr>))
               \<lparr>currentCommandBlock := stripCR h @ [NL]\<rparr>"
  using hd by (simp add: processLine_def Let_def)

lemma out_of_range_in_flow:
  assumes hd: "matchHeader (stripCR h) = Some ds" and oor: "stoll ds = Out_of_range"
    and nl: "NL \<notin> set h"
    and ct: "\<forall>l \<in> set conts. matchHeader (stripCR l) = None"
    and nx: "rest = [] \<or> matchHeader (stripCR (hd rest)) \<noteq> None"
    and s0: "lineNum s0 = n"
  shows "WarnTimestampRange (n + 1 + length conts)
           \<in> set (scan_cerr (flushBlock c
                  (lineNum (foldl (\<lambda>s l. processLine c l s) s0 (h # conts @ rest)))
                  (foldl (\<lambda>s l. processLine c l s) s0 (h # conts @ rest))))
         \<and> (\<not> dryRun c \<longrightarrow> recordOf h conts
           \<in> set (keptEntries (flushBlock c
                  (lineNum (foldl (\<lambda>s l. processLine c l s) s0 (h # conts @ rest)))
                  (foldl (\<lambda>s l. processLine c l s) s0 (h # conts @ rest)))))"
proof -
  let ?P = "\<lambda>s l. processLine c l s"
  let ?s1 = "processLine c h s0"
  let ?s2 = "foldl ?P ?s1 conts"
  have hd': "matchHeader (stripCR h) \<noteq> None" using hd by simp
  have c1: "currentCommandBlock ?s1 = stripCR h @ [NL]"
    by (simp add: header_line_step [OF hd'])
  have l1: "lineNum ?s1 = n + 1"
    using processLine_grows [of s0 c h] s0 by simp
  have s2: "?s2 = ?s1\<lparr>lineNum := lineNum ?s1 + length conts,
                currentCommandBlock := currentCommandBlock ?s1
                   @ concat (map (\<lambda>l. stripCR l @ [NL]) conts)\<rparr>"
    using ct c1 by (intro fold_continuation) simp_all
  have c2: "currentCommandBlock ?s2 = recordOf h conts"
    by (subst s2) (simp add: c1 recordOf_def)
  have l2: "lineNum ?s2 = n + 1 + length conts"
    by (subst s2) (simp add: l1)
  have split: "foldl ?P s0 (h # conts @ rest) = foldl ?P ?s2 rest"
    by simp
  show ?thesis
  proof (cases rest)
    case Nil
    from out_of_range_flush [OF hd oor nl c2, of c "lineNum ?s2"] show ?thesis
      unfolding split Nil by (simp add: l2)
  next
    case (Cons h2 rest')
    with nx have h2: "matchHeader (stripCR h2) \<noteq> None" by simp
    let ?s2' = "?s2\<lparr>lineNum := lineNum ?s2 + 1\<rparr>"
    let ?s3 = "processLine c h2 ?s2"
    let ?F = "foldl ?P ?s3 rest'"
    let ?S = "flushBlock c (lineNum ?F) ?F"
    have c2': "currentCommandBlock ?s2' = recordOf h conts" using c2 by simp
    from out_of_range_flush [OF hd oor nl c2', of c "lineNum ?s2"]
    have k3: "keptEntries ?s3 = (if dryRun c then keptEntries ?s2
                                 else keptEntries ?s2 @ [recordOf h conts])"
      and e3: "scan_cerr ?s3 = scan_cerr ?s2 @ [WarnTimestampRange (n + 1 + length conts)]"
      by (simp_all add: header_line_step [OF h2] l2)
    have "prefix (keptEntries ?s3) (keptEntries ?S)"
      using fold_grows [of ?s3 c rest'] flushBlock_grows [of ?F c "lineNum ?F"]
      by (auto intro: prefix_order.trans)
    then have k: "set (keptEntries ?s3) \<subseteq> set (keptEntries ?S)"
      by (rule set_mono_prefix)
    have "prefix (scan_cerr ?s3) (scan_cerr ?S)"
      using fold_grows [of ?s3 c rest'] flushBlock_grows [of ?F c "lineNum ?F"]
      by (auto intro: prefix_order.trans)
    then have e: "set (scan_cerr ?s3) \<subseteq> set (scan_cerr ?S)"
      by (rule set_mono_prefix)
    have S: "flushBlock c (lineNum (foldl ?P s0 (h # conts @ rest)))
               (foldl ?P s0 (h # conts @ rest)) = ?S"
      unfolding split Cons by simp
    show ?thesis
      unfolding S using k e k3 e3 by auto
  qed
qed

text \<open>
  C8, as the code has it. A header line whose timestamp is beyond the range of a 64-bit
  integer starts a record like any other header line. Whatever the window and the
  filters are, \<open>processCommandBlock\<close> answers \<open>false\<close> for that record, adds one to the
  kept count and sends the out-of-range warning to \<open>std::cerr\<close>, and nothing else; in a
  scan that reaches the end of the file the warning (with the number of the last line
  of the record) is on \<open>std::cerr\<close>, and outside a dry run the record, with its
  continuation lines, is among the kept entries. A line that is not a header line, as
  one whose timestamp is not a number, and that follows a header line is appended to
  the record before it, with no warning and no count.
\<close>

theorem out_of_range_timestamp_kept:
  assumes ni: "\<not> interrupted c" and re: "read_error_at env = None"
    and ls: "getlines content = pre @ h # conts @ rest"
    and hd: "matchHeader (stripCR h) = Some ds" and oor: "stoll ds = Out_of_range"
    and ct: "\<forall>l \<in> set conts. matchHeader (stripCR l) = None"
    and nx: "rest = [] \<or> matchHeader (stripCR (hd rest)) \<noteq> None"
  shows "fst (scanHistory c env content)
         \<and> WarnTimestampRange (length pre + 1 + length conts)
             \<in> set (scan_cerr (snd (scanHistory c env content)))
         \<and> (\<not> dryRun c \<longrightarrow>
              recordOf h conts \<in> set (keptEntries (snd (scanHistory c env content))))
         \<and> (\<forall>ln st. processCommandBlock c (recordOf h conts) ln st
                      = (False, st\<lparr>keptCount := keptCount st + 1,
                                   scan_cerr := scan_cerr st @ [WarnTimestampRange ln]\<rparr>))
         \<and> (\<forall>l st. matchHeader (stripCR l) = None \<and> currentCommandBlock st \<noteq> [] \<longrightarrow>
                processLine c l st
                  = st\<lparr>lineNum := lineNum st + 1,
                       currentCommandBlock := currentCommandBlock st @ stripCR l @ [NL]\<rparr>)"
proof -
  let ?P = "\<lambda>s l. processLine c l s"
  let ?s0 = "foldl ?P scan_init pre"
  let ?S = "foldl ?P scan_init (getlines content)"
  have nl: "NL \<notin> set h"
    by (rule getlines_no_NL [of h content]) (simp add: ls)
  have sh: "scanHistory c env content = (True, flushBlock c (lineNum ?S) ?S)"
    by (simp add: scanHistory_def scanLoop_fold [OF ni re])
  have n0: "lineNum ?s0 = length pre"
    using fold_grows [of scan_init c pre] by (simp add: scan_init_def)
  have S: "?S = foldl ?P ?s0 (h # conts @ rest)"
    by (simp add: ls)
  from out_of_range_in_flow [OF hd oor nl ct nx n0, of c]
  have flow: "WarnTimestampRange (length pre + 1 + length conts)
             \<in> set (scan_cerr (snd (scanHistory c env content)))
         \<and> (\<not> dryRun c \<longrightarrow>
              recordOf h conts \<in> set (keptEntries (snd (scanHistory c env content))))"
    unfolding sh S [symmetric] by simp
  have blk: "\<forall>ln st. processCommandBlock c (recordOf h conts) ln st
                      = (False, st\<lparr>keptCount := keptCount st + 1,
                                   scan_cerr := scan_cerr st @ [WarnTimestampRange ln]\<rparr>)"
    using out_of_range_block [OF hd oor nl] by blast
  have cont: "\<forall>l st. matchHeader (stripCR l) = None \<and> currentCommandBlock st \<noteq> [] \<longrightarrow>
                processLine c l st
                  = st\<lparr>lineNum := lineNum st + 1,
                       currentCommandBlock := currentCommandBlock st @ stripCR l @ [NL]\<rparr>"
    by (simp add: processLine_def Let_def)
  show ?thesis
    using sh flow blk cont by simp
qed

theorem out_of_range_timestamp_kept_witness:
  "fst (scanHistory cleaner0 quiet_env
          (text_of ['': 1:0;ls'', '': 99999999999999999999:0;rm -rf /'', ''  --no-preserve-root'',
                    '': 2:0;pwd'']))
   \<and> WarnTimestampRange 3
       \<in> set (scan_cerr (snd (scanHistory cleaner0 quiet_env
          (text_of ['': 1:0;ls'', '': 99999999999999999999:0;rm -rf /'', ''  --no-preserve-root'',
                    '': 2:0;pwd'']))))
   \<and> recordOf '': 99999999999999999999:0;rm -rf /'' [''  --no-preserve-root'']
       \<in> set (keptEntries (snd (scanHistory cleaner0 quiet_env
          (text_of ['': 1:0;ls'', '': 99999999999999999999:0;rm -rf /'', ''  --no-preserve-root'',
                    '': 2:0;pwd'']))))
   \<and> processCommandBlock cleaner0
         (recordOf '': 99999999999999999999:0;rm -rf /'' [''  --no-preserve-root'']) 3 scan_init
       = (False, scan_init\<lparr>keptCount := 1, scan_cerr := [WarnTimestampRange 3]\<rparr>)
   \<and> processLine cleaner0 ''  --no-preserve-root''
         (scan_init\<lparr>currentCommandBlock := '': 99999999999999999999:0;rm -rf /'' @ [NL]\<rparr>)
       = scan_init\<lparr>lineNum := 1,
            currentCommandBlock := '': 99999999999999999999:0;rm -rf /'' @ [NL]
               @ ''  --no-preserve-root'' @ [NL]\<rparr>"
proof -
  let ?h = "'': 99999999999999999999:0;rm -rf /''"
  let ?k = "''  --no-preserve-root''"
  let ?X = "text_of ['': 1:0;ls'', ?h, ?k, '': 2:0;pwd'']"
  have ni: "\<not> interrupted cleaner0" and nd: "\<not> dryRun cleaner0"
    by (simp_all add: cleaner0_def)
  have re: "read_error_at quiet_env = None" by (simp add: quiet_env_def)
  have ls: "getlines ?X = ['': 1:0;ls''] @ ?h # [?k] @ ['': 2:0;pwd'']"
    by (simp add: getlines_def text_of_def NL_def)
  have hd: "matchHeader (stripCR ?h) = Some ''99999999999999999999''"
    by (simp add: header_eval stripCR_def)
  have oor: "stoll ''99999999999999999999'' = Out_of_range"
    by (simp add: header_eval)
  have ct: "\<forall>l \<in> set [?k]. matchHeader (stripCR l) = None"
    by (simp add: header_eval stripCR_def)
  have nx: "['': 2:0;pwd''] = [] \<or> matchHeader (stripCR (hd ['': 2:0;pwd''])) \<noteq> None"
    by (simp add: header_eval stripCR_def)
  have k: "matchHeader (stripCR ?k) = None
           \<and> currentCommandBlock (scan_init\<lparr>currentCommandBlock := ?h @ [NL]\<rparr>) \<noteq> []"
    by (simp add: header_eval stripCR_def)
  have sk: "stripCR ?k = ?k" by (simp add: stripCR_def CR_def)
  note T = out_of_range_timestamp_kept [OF ni re ls hd oor ct nx]
  from T nd have flow: "fst (scanHistory cleaner0 quiet_env ?X)
      \<and> WarnTimestampRange 3 \<in> set (scan_cerr (snd (scanHistory cleaner0 quiet_env ?X)))
      \<and> recordOf ?h [?k] \<in> set (keptEntries (snd (scanHistory cleaner0 quiet_env ?X)))"
    by (simp add: numeral_3_eq_3)
  from T have "processCommandBlock cleaner0 (recordOf ?h [?k]) 3 scan_init
       = (False, scan_init\<lparr>keptCount := keptCount scan_init + 1,
                            scan_cerr := scan_cerr scan_init @ [WarnTimestampRange 3]\<rparr>)"
    by blast
  then have blk: "processCommandBlock cleaner0 (recordOf ?h [?k]) 3 scan_init
       = (False, scan_init\<lparr>keptCount := 1, scan_cerr := [WarnTimestampRange 3]\<rparr>)"
    by (simp add: scan_init_def)
  let ?st = "scan_init\<lparr>currentCommandBlock := ?h @ [NL]\<rparr>"
  from T k have "processLine cleaner0 ?k ?st
       = ?st\<lparr>lineNum := lineNum ?st + 1,
              currentCommandBlock := currentCommandBlock ?st @ stripCR ?k @ [NL]\<rparr>"
    by blast
  then have cont: "processLine cleaner0 ?k ?st
       = scan_init\<lparr>lineNum := 1, currentCommandBlock := ?h @ [NL] @ ?k @ [NL]\<rparr>"
    by (simp add: sk scan_init_def)
  from flow blk cont show ?thesis by simp
qed

text \<open>
  A line with the timestamp \<open>12x\<close> after a record that the window deletes: nothing is
  kept, nothing is warned about, and the line is deleted with that record.
\<close>

theorem non_digit_timestamp_line_deleted_silently:
  "keptCount (snd (scanHistory cleaner0 quiet_env (text_of ['': 1:0;ls'', '': 12x:0;rm -rf /'']))) = 0
   \<and> deletedCount (snd (scanHistory cleaner0 quiet_env
                          (text_of ['': 1:0;ls'', '': 12x:0;rm -rf /'']))) = 1
   \<and> keptEntries (snd (scanHistory cleaner0 quiet_env
                          (text_of ['': 1:0;ls'', '': 12x:0;rm -rf /'']))) = []
   \<and> scan_cerr (snd (scanHistory cleaner0 quiet_env
                        (text_of ['': 1:0;ls'', '': 12x:0;rm -rf /'']))) = []"
  by (simp add: scan_eval header_eval quiet_env_def cleaner0_def TIME_MAX_def)

section \<open>Properties of the commit\<close>

lemma length_randomName36: "length (randomName36 d) = 15"
  by (simp add: randomName36_def)

lemma temp_ne_backup: "tempPathOf env c \<noteq> backupPathOf env c'"
proof
  assume "tempPathOf env c = backupPathOf env c'"
  then have "randomName36 (temp_draw env)
               = filename (effectiveHistoryFilePath c') @ ''.backup_'' @ randomName36 (backup_draw env)"
    by (simp add: tempPathOf_def backupPathOf_def path_append_def)
  then have "length (randomName36 (temp_draw env))
               = length (filename (effectiveHistoryFilePath c') @ ''.backup_'' @ randomName36 (backup_draw env))"
    by simp
  then show False
    by (simp add: length_randomName36)
qed

lemma return_remove_frame:
  "sd_ret (return_remove env p fs tr lg) \<Longrightarrow>
     sd_fs (return_remove env p fs tr lg) p = None
     \<and> (sd_fs (return_remove env p fs tr lg) q = None \<or> sd_fs (return_remove env p fs tr lg) q = fs q)"
  by (auto simp: return_remove_def fs_remove_def split: if_splits option.splits)

lemma rename_and_delete_frame:
  "sd_ret (rename_and_delete env p fs tr lg) \<Longrightarrow>
     sd_fs (rename_and_delete env p fs tr lg) p = None
     \<and> (sd_fs (rename_and_delete env p fs tr lg) q = None
        \<or> sd_fs (rename_and_delete env p fs tr lg) q = fs q)"
  by (auto simp: rename_and_delete_def fs_rename_def fs_remove_def Let_def
           split: if_splits option.splits)

lemma secureDelete_frame:
  assumes "secureDelete env p n fs = Some r" and "sd_ret r"
  shows "sd_fs r p = None \<and> (sd_fs r q = None \<or> sd_fs r q = fs q)"
proof (cases "status_error env p")
  case True
  with assms show ?thesis by (auto simp: secureDelete_def)
next
  case se: False
  show ?thesis
  proof (cases "fs p")
    case None
    with assms se show ?thesis by (auto simp: secureDelete_def)
  next
    case (Some nd)
    show ?thesis
    proof (cases nd)
      case Other
      with assms se Some return_remove_frame [of env p fs "[]" "[WarnNotRegular]" q]
      show ?thesis by (auto simp: secureDelete_def)
    next
      case (Regular content)
      consider (a) "size_error env p" | (b) "\<not> size_error env p" "content = []"
        | (c) "\<not> size_error env p" "content \<noteq> []" by blast
      then show ?thesis
      proof cases
        case a
        with assms se Some Regular return_remove_frame [of env p fs "[]" "[ErrFileSize]" q]
        show ?thesis by (auto simp: secureDelete_def)
      next
        case b
        with assms se Some Regular return_remove_frame [of env p fs "[]" "[InfoEmptyFile]" q]
        show ?thesis by (auto simp: secureDelete_def)
      next
        case c
        obtain fd lg where ow: "open_wronly env p = (fd, lg)"
          by (cases "open_wronly env p")
        show ?thesis
        proof (cases fd)
          case (Some e)
          with assms se \<open>fs p = Some nd\<close> Regular c ow
            return_remove_frame [of env p fs "[]" "lg @ [ErrOpen e]" q]
          show ?thesis by (auto simp: secureDelete_def)
        next
          case None
          let ?st0 = "\<lparr>st_content = content, st_offset = 0, st_calls = 0,
                             st_trace = [], st_log = lg\<rparr>"
          from assms se \<open>fs p = Some nd\<close> Regular c ow None
          obtain ok st where pl: "passLoop env 1 n (length content) ?st0 = Some (ok, st)"
            by (auto simp: secureDelete_def split: option.splits)
          let ?fs1 = "fs(p \<mapsto> Regular (st_content st))"
          have r: "r = (if \<not> ok then return_remove env p ?fs1 (st_trace st) (st_log st)
                        else rename_and_delete env p ?fs1 (st_trace st) (st_log st))"
            using assms se \<open>fs p = Some nd\<close> Regular c ow None pl
            by (auto simp: secureDelete_def Let_def)
          have q: "q \<noteq> p \<Longrightarrow> ?fs1 q = fs q" by simp
          show ?thesis
          proof (cases ok)
            case True
            with r assms(2) rename_and_delete_frame [of env p ?fs1 "st_trace st" "st_log st" q] q
            show ?thesis by (cases "q = p") auto
          next
            case False
            with r assms(2) return_remove_frame [of env p ?fs1 "st_trace st" "st_log st" q] q
            show ?thesis by (cases "q = p") auto
          qed
        qed
      qed
    qed
  qed
qed

lemma backupHistoryFile_frame:
  assumes "backupHistoryFile env c w = (True, c1, w1)"
  shows "tempFilePath c1 = tempFilePath c \<and> effectiveHistoryFilePath c1 = effectiveHistoryFilePath c
         \<and> (q \<noteq> backupPathOf env c \<longrightarrow> w_fs w1 q = w_fs w q)"
  using assms
  by (auto simp: backupHistoryFile_def backupPathOf_def fs_copy_file_def to_cerr_def to_cout_def
           Let_def split: if_splits option.splits node.splits prod.splits)

lemma performCleanup_frame:
  assumes pc: "performCleanup env c w = Some (True, c1, w2)" and nd: "\<not> dryRun c"
  shows "tempFilePath c1 = tempFilePath c \<and> effectiveHistoryFilePath c1 = effectiveHistoryFilePath c
         \<and> w_fs w2 (effectiveHistoryFilePath c) = None
         \<and> (q \<noteq> backupPathOf env c \<longrightarrow> w_fs w2 q = None \<or> w_fs w2 q = w_fs w q)"
proof -
  obtain bok cb wb where b: "(if doBackup c then backupHistoryFile env c w else (True, c, w)) = (bok, cb, wb)"
    by (cases "if doBackup c then backupHistoryFile env c w else (True, c, w)")
  have bf: "tempFilePath cb = tempFilePath c \<and> effectiveHistoryFilePath cb = effectiveHistoryFilePath c
         \<and> (q \<noteq> backupPathOf env c \<longrightarrow> w_fs wb q = w_fs w q)"
  proof (cases "doBackup c")
    case True
    with b pc nd have "bok" by (auto simp: performCleanup_def Let_def split: if_splits)
    with b True backupHistoryFile_frame [of env c w cb wb q] show ?thesis by simp
  next
    case False
    with b show ?thesis by simp
  qed
  let ?w2 = "to_output [SecurelyDeleting (effectiveHistoryFilePath cb)] wb"
  from pc nd b obtain r where
    sd: "secureDelete env (effectiveHistoryFilePath cb) (shredPasses cb) (w_fs ?w2) = Some r"
    and ret: "sd_ret r" and c1: "c1 = cb" and w2: "w_fs w2 = sd_fs r"
    by (auto simp: performCleanup_def Let_def to_output_def to_cerr_def
             split: if_splits option.splits)
  from secureDelete_frame [OF sd ret, of q] bf c1 w2 show ?thesis
    by (auto simp: to_output_def)
qed

lemma commit_success_content:
  assumes cm: "commit env c w kept = Some (True, c', w')" and nd: "\<not> dryRun c"
  shows "w_fs w' (effectiveHistoryFilePath c) = Some (Regular (flushed env (concat kept)))"
proof -
  let ?temp = "tempPathOf env c"
  let ?c = "c\<lparr>tempFilePath := ?temp\<rparr>"
  let ?w1 = "w\<lparr>w_fs := (w_fs w)(?temp \<mapsto> Regular (flushed env (concat kept)))\<rparr>"
  from cm obtain c1 w2 where pc: "performCleanup env ?c ?w1 = Some (True, c1, w2)"
    and rn: "\<not> fst (fs_rename env (tempFilePath c1) (effectiveHistoryFilePath c1) (w_fs w2))"
    and w': "w_fs w' = snd (fs_rename env (tempFilePath c1) (effectiveHistoryFilePath c1) (w_fs w2))"
    by (auto simp: commit_def tempPathOf_def Let_def
             split: if_splits option.splits prod.splits)
  have nd': "\<not> dryRun ?c" using nd by simp
  from performCleanup_frame [OF pc nd', of ?temp] temp_ne_backup [of env c ?c]
  have t: "tempFilePath c1 = ?temp" and e: "effectiveHistoryFilePath c1 = effectiveHistoryFilePath c"
    and f: "w_fs w2 ?temp = None \<or> w_fs w2 ?temp = Some (Regular (flushed env (concat kept)))"
    by (auto simp: tempPathOf_def)
  from rn t e f show ?thesis
    unfolding w' by (auto simp: fs_rename_def split: if_splits option.splits)
qed

lemma temp_name_quiet: "randomName36 (temp_draw quiet_env) = ''ABCDEFGHIJKLMNO''"
  by code_simp

lemma obscure_name_quiet: "obscureName quiet_env = ''abcdefghijklmno''"
  by code_simp

lemma temp_name_refused: "randomName36 (temp_draw rename_refused_env) = ''ABCDEFGHIJKLMNO''"
  by code_simp

lemma obscure_name_refused: "obscureName rename_refused_env = ''abcdefghijklmno''"
  by code_simp

lemma temp_name_create: "randomName36 (temp_draw create_refused_env) = ''ABCDEFGHIJKLMNO''"
  by code_simp

lemmas sd_eval = secureDelete_def open_wronly_def passLoop.simps writeLoop.simps
  return_remove_def rename_and_delete_def fs_remove_def fs_rename_def do_write_def add_log_def
  SHRED_BUFFER_SIZE_def path_append_def parent_path_def

lemmas commit_eval = processHistory_def openHistory_def commit_def performCleanup_def
  backupHistoryFile_def cleanup_def to_cerr_def to_cout_def to_output_def
  tempPathOf_def returned_def node_after_def temp_after_def world_with_def
  fs_with_def hist_def flushed_def Let_def

text \<open>
  C6, as the code has it. Outside a dry run, for a scan that reaches the end of the
  file: when nothing is deleted, the kept entries, concatenated in order, are the input
  with one trailing carriage return taken from each line and a newline after every
  line, also after a last line that had none; where no line ends in a carriage return
  that is the input itself when it is empty or ends in a newline, and the input plus
  one newline otherwise. And whenever \<open>processHistory\<close> returns \<open>true\<close> and the close of
  the new file flushed all of its data, the history file then holds exactly the
  concatenation of the kept entries.
\<close>

theorem records_reproduce_normalised_input:
  assumes nd: "\<not> dryRun c"
    and f: "w_fs w (effectiveHistoryFilePath c) = Some (Regular content)"
    and sc: "scanHistory c env content = (True, st)"
  shows "(deletedCount st = 0 \<longrightarrow> concat (keptEntries st) = normalise content)
         \<and> ((\<forall>l \<in> set (getlines content). stripCR l = l)
              \<longrightarrow> normalise content = terminated content)
         \<and> (returned (processHistory env c w) = Some True \<and> close_flush_limit env = None
              \<longrightarrow> node_after (processHistory env c w) (effectiveHistoryFilePath c)
                    = Some (Regular (concat (keptEntries st))))"
proof (intro conjI impI; (elim conjE)?)
  assume "deletedCount st = 0"
  then show "concat (keptEntries st) = normalise content"
    by (rule scanHistory_lossless [OF nd sc])
next
  assume "\<forall>l \<in> set (getlines content). stripCR l = l"
  then show "normalise content = terminated content"
    by (rule normalise_no_CR)
next
  assume fl: "close_flush_limit env = None"
  assume "returned (processHistory env c w) = Some True"
  then obtain c' w' where ph: "processHistory env c w = Some (True, c', w')"
    by (auto simp: returned_def)
  let ?w2 = "to_cout [Summary (lineNum st) (keptCount st) (deletedCount st)]
               (to_output (scan_output st) (to_cerr (scan_cerr st) w))"
  from ph nd f sc have cm: "commit env c ?w2 (keptEntries st) = Some (True, c', w')"
    by (auto simp: processHistory_def openHistory_def Let_def split: if_splits)
  from commit_success_content [OF cm nd] ph fl
  show "node_after (processHistory env c w) (effectiveHistoryFilePath c)
          = Some (Regular (concat (keptEntries st)))"
    by (simp add: node_after_def flushed_def)
qed

theorem records_reproduce_normalised_input_witness:
  "concat (keptEntries
      \<lparr>lineNum = 2, keptCount = 1, deletedCount = 0,
       currentCommandBlock = '': 1:0;ls'' @ [NL] @ ''  -la'' @ [NL],
       keptEntries = ['': 1:0;ls'' @ [NL] @ ''  -la'' @ [NL]],
       scan_cerr = [], scan_output = []\<rparr>)
     = normalise ('': 1:0;ls'' @ [CR, NL] @ ''  -la'')
   \<and> node_after (processHistory quiet_env keep_all
          (world_with ('': 1:0;ls'' @ [CR, NL] @ ''  -la''))) hist
       = Some (Regular ('': 1:0;ls'' @ [NL] @ ''  -la'' @ [NL]))"
proof -
  let ?X = "'': 1:0;ls'' @ [CR, NL] @ ''  -la''"
  let ?st = "\<lparr>lineNum = 2, keptCount = 1, deletedCount = 0,
       currentCommandBlock = '': 1:0;ls'' @ [NL] @ ''  -la'' @ [NL],
       keptEntries = ['': 1:0;ls'' @ [NL] @ ''  -la'' @ [NL]],
       scan_cerr = [], scan_output = []\<rparr>"
  have nd: "\<not> dryRun keep_all" by (simp add: keep_all_def cleaner0_def)
  have h: "effectiveHistoryFilePath keep_all = hist" by (simp add: keep_all_def cleaner0_def)
  have f: "w_fs (world_with ?X) (effectiveHistoryFilePath keep_all) = Some (Regular ?X)"
    by (simp add: h world_with_def fs_with_def)
  have sc: "scanHistory keep_all quiet_env ?X = (True, ?st)"
    by (simp add: scan_eval header_eval quiet_env_def keep_all_def cleaner0_def)
  have r: "returned (processHistory quiet_env keep_all (world_with ?X)) = Some True"
    using temp_name_quiet obscure_name_quiet
    by (simp add: commit_eval sd_eval scan_eval header_eval quiet_env_def keep_all_def
          cleaner0_def)
  have fl: "close_flush_limit quiet_env = None" by (simp add: quiet_env_def)
  from records_reproduce_normalised_input [OF nd f sc] r h fl
  show ?thesis by simp
qed

text \<open>
  A file whose only line has no newline and no carriage return, with nothing deleted:
  the records concatenated are not the file.
\<close>

theorem unterminated_last_line_gains_newline:
  "deletedCount (snd (scanHistory keep_all quiet_env '': 1:0;ls'')) = 0
   \<and> concat (keptEntries (snd (scanHistory keep_all quiet_env '': 1:0;ls''))) \<noteq> '': 1:0;ls''"
  by (simp add: scan_eval header_eval quiet_env_def keep_all_def cleaner0_def)

lemma commit_rename_failure:
  assumes nd: "\<not> dryRun c"
    and cr: "\<not> create_fails env (tempPathOf env c)"
    and wf: "entry_write_fails_at env = None"
    and pc: "performCleanup env (c\<lparr>tempFilePath := tempPathOf env c\<rparr>)
               (w\<lparr>w_fs := (w_fs w)(tempPathOf env c \<mapsto> Regular (flushed env (concat kept)))\<rparr>)
             = Some (True, c1, w2)"
    and rn: "fst (fs_rename env (tempPathOf env c) (effectiveHistoryFilePath c) (w_fs w2))"
  shows "\<exists>c' w'. commit env c w kept = Some (False, c', w')
           \<and> ErrRenameNew \<in> set (w_cerr w')
           \<and> w_fs w' (effectiveHistoryFilePath c) = None
           \<and> (\<not> remove_fails env (tempPathOf env c) \<longrightarrow> w_fs w' (tempPathOf env c) = None)
           \<and> (w_fs w2 (tempPathOf env c) \<noteq> None \<longrightarrow> tempFilePath c' = [])"
proof -
  let ?temp = "tempPathOf env c"
  let ?c = "c\<lparr>tempFilePath := ?temp\<rparr>"
  have nd': "\<not> dryRun ?c" using nd by simp
  from performCleanup_frame [OF pc nd', of ?temp]
  have t: "tempFilePath c1 = ?temp" and e: "effectiveHistoryFilePath c1 = effectiveHistoryFilePath c"
    and o: "w_fs w2 (effectiveHistoryFilePath c) = None"
    by simp_all
  have ne: "?temp \<noteq> []"
    by (simp add: tempPathOf_def path_append_def)
  let ?res = "cleanup env c1 (to_cerr [ErrRenameNew] w2)"
  obtain ec fs' where fr: "fs_rename env ?temp (effectiveHistoryFilePath c) (w_fs w2) = (ec, fs')"
    by (cases "fs_rename env ?temp (effectiveHistoryFilePath c) (w_fs w2)")
  with rn have ec: "ec" by simp
  have cm: "commit env c w kept = Some (False, ?res)"
    using cr wf pc fr ec t e
    by (simp add: commit_def tempPathOf_def Let_def)
  have 1: "ErrRenameNew \<in> set (w_cerr (snd ?res))"
    by (auto simp: cleanup_def to_cerr_def Let_def split: prod.splits)
  have 2: "w_fs (snd ?res) (effectiveHistoryFilePath c) = None"
    using o t ne by (auto simp: cleanup_def to_cerr_def fs_remove_def Let_def split: prod.splits if_splits)
  have 3: "\<not> remove_fails env ?temp \<longrightarrow> w_fs (snd ?res) ?temp = None"
    using t ne by (auto simp: cleanup_def to_cerr_def fs_remove_def Let_def split: prod.splits if_splits)
  have 4: "w_fs w2 ?temp \<noteq> None \<longrightarrow> tempFilePath (fst ?res) = []"
    using t ne by (auto simp: cleanup_def to_cerr_def Let_def split: prod.splits)
  show ?thesis
    using cm 1 2 3 4 by (cases ?res) auto
qed

text \<open>
  C1, as the code has it. In a run that changes files, when the history file was read to
  its end, the new file was written, \<open>performCleanup\<close> (and with it the erase of the
  original) succeeded and the final rename fails: the rename error is sent to
  \<open>std::cerr\<close>, \<open>cleanup\<close> is run, and \<open>processHistory\<close> returns \<open>false\<close> as for any other
  failure. Afterwards the original path holds nothing, the temporary file is removed
  unless that removal is refused, and the recorded temporary path is cleared when the
  file was there.
\<close>

theorem rename_failure_removes_temp:
  assumes ni: "\<not> interrupted c" and nd: "\<not> dryRun c"
    and f: "openHistory env (effectiveHistoryFilePath c) (w_fs w) = Inr content"
    and sc: "scanHistory c env content = (True, st)"
    and cr: "\<not> create_fails env (tempPathOf env c)"
    and wf: "entry_write_fails_at env = None"
    and pc: "performCleanup env (c\<lparr>tempFilePath := tempPathOf env c\<rparr>)
               (with_temp env c (after_scan w st) (keptEntries st))
             = Some (True, c1, w2)"
    and rn: "fst (fs_rename env (tempPathOf env c) (effectiveHistoryFilePath c) (w_fs w2))"
  shows "\<exists>c' w'. processHistory env c w = Some (False, c', w')
           \<and> ErrRenameNew \<in> set (w_cerr w')
           \<and> w_fs w' (effectiveHistoryFilePath c) = None
           \<and> (\<not> remove_fails env (tempPathOf env c) \<longrightarrow> w_fs w' (tempPathOf env c) = None)
           \<and> (w_fs w2 (tempPathOf env c) \<noteq> None \<longrightarrow> tempFilePath c' = [])"
proof -
  have ph: "processHistory env c w = commit env c (after_scan w st) (keptEntries st)"
    using ni nd f sc by (simp add: processHistory_def after_scan_def Let_def)
  from pc have pc': "performCleanup env (c\<lparr>tempFilePath := tempPathOf env c\<rparr>)
               ((after_scan w st)\<lparr>w_fs := (w_fs (after_scan w st))
                   (tempPathOf env c \<mapsto> Regular (flushed env (concat (keptEntries st))))\<rparr>)
             = Some (True, c1, w2)"
    by (simp add: with_temp_def)
  show ?thesis
    unfolding ph by (rule commit_rename_failure [OF nd cr wf pc' rn])
qed

theorem rename_failure_removes_temp_witness:
  "returned (processHistory rename_refused_env (cleaner0\<lparr>filterKeywords := [''ls'']\<rparr>)
               (world_with (text_of ['': 1:0;ls'', '': 2:0;pwd''])))
     = Some False
   \<and> node_after (processHistory rename_refused_env (cleaner0\<lparr>filterKeywords := [''ls'']\<rparr>)
                   (world_with (text_of ['': 1:0;ls'', '': 2:0;pwd''])))
        hist = None
   \<and> node_after (processHistory rename_refused_env (cleaner0\<lparr>filterKeywords := [''ls'']\<rparr>)
                   (world_with (text_of ['': 1:0;ls'', '': 2:0;pwd''])))
        (tempPathOf rename_refused_env (cleaner0\<lparr>filterKeywords := [''ls'']\<rparr>)) = None"
proof -
  let ?E = rename_refused_env
  let ?c = "cleaner0\<lparr>filterKeywords := [''ls'']\<rparr>"
  let ?X = "text_of ['': 1:0;ls'', '': 2:0;pwd'']"
  let ?st = "\<lparr>lineNum = 2, keptCount = 1, deletedCount = 1,
              currentCommandBlock = '': 2:0;pwd'' @ [NL],
              keptEntries = ['': 2:0;pwd'' @ [NL]], scan_cerr = [], scan_output = []\<rparr>"
  let ?temp = "tempPathOf ?E ?c"
  have ni: "\<not> interrupted ?c" and nd: "\<not> dryRun ?c"
    and h: "effectiveHistoryFilePath ?c = hist"
    by (simp_all add: cleaner0_def)
  have f: "openHistory ?E (effectiveHistoryFilePath ?c) (w_fs (world_with ?X)) = Inr ?X"
    by (simp add: h openHistory_def world_with_def fs_with_def rename_refused_env_def
          quiet_env_def)
  have sc: "scanHistory ?c ?E ?X = (True, ?st)"
    by (simp add: scan_eval header_eval rename_refused_env_def quiet_env_def cleaner0_def
          TIME_MAX_def)
  have cr: "\<not> create_fails ?E ?temp" and wf: "entry_write_fails_at ?E = None"
    and rm: "\<not> remove_fails ?E ?temp"
    by (simp_all add: rename_refused_env_def quiet_env_def)
  have "returned (performCleanup ?E (?c\<lparr>tempFilePath := ?temp\<rparr>)
                    (with_temp ?E ?c (after_scan (world_with ?X) ?st) (keptEntries ?st)))
          = Some True"
    using temp_name_refused obscure_name_refused
    by (simp add: commit_eval sd_eval with_temp_def after_scan_def text_of_def
          rename_refused_env_def quiet_env_def cleaner0_def)
  then obtain c1 w2 where
    pc: "performCleanup ?E (?c\<lparr>tempFilePath := ?temp\<rparr>)
           (with_temp ?E ?c (after_scan (world_with ?X) ?st) (keptEntries ?st))
         = Some (True, c1, w2)"
    by (auto simp: returned_def)
  have rn: "fst (fs_rename ?E ?temp (effectiveHistoryFilePath ?c) (w_fs w2))"
    by (simp add: fs_rename_def rename_refused_env_def h)
  from rename_failure_removes_temp [OF ni nd f sc cr wf pc rn] rm h
  show ?thesis
    by (auto simp: returned_def node_after_def)
qed

text \<open>
  The rename onto the history file is refused after a successful erase: the run
  returns \<open>false\<close>, no file is left under the temporary name and the recorded temporary
  path is empty; a run that cannot even create the new file returns the same \<open>false\<close>.
\<close>

theorem rename_failure_loses_survivors:
  "returned (processHistory rename_refused_env (cleaner0\<lparr>filterKeywords := [''pwd'']\<rparr>)
               (world_with (text_of ['': 1:0;ls'', '': 2:0;pwd''])))
     = Some False
   \<and> node_after (processHistory rename_refused_env (cleaner0\<lparr>filterKeywords := [''pwd'']\<rparr>)
                   (world_with (text_of ['': 1:0;ls'', '': 2:0;pwd''])))
        (tempPathOf rename_refused_env cleaner0) = None
   \<and> temp_after (processHistory rename_refused_env (cleaner0\<lparr>filterKeywords := [''pwd'']\<rparr>)
                   (world_with (text_of ['': 1:0;ls'', '': 2:0;pwd'']))) = Some []
   \<and> returned (processHistory create_refused_env (cleaner0\<lparr>filterKeywords := [''pwd'']\<rparr>)
               (world_with (text_of ['': 1:0;ls'', '': 2:0;pwd''])))
     = Some False"
  using temp_name_refused obscure_name_refused temp_name_create
  by (simp add: commit_eval sd_eval scan_eval header_eval rename_refused_env_def
        create_refused_env_def quiet_env_def cleaner0_def TIME_MAX_def)

end
